theory Spec2Isabelle
  imports Complex_Main
begin

section \<open>Python values, errors and the dynamic operations the sources rely on\<close>

text \<open>
  The cached game documents are JSON: the sources walk them with \<^verbatim>\<open>.get\<close> chains,
  \<^verbatim>\<open>for\<close> loops, truthiness tests and \<^verbatim>\<open>float(...)\<close>. A parsed document is a value of
  \<open>json\<close>; a Python dict is an association list read with \<open>map_of\<close> (the keys of a
  parsed document are distinct). Floating-point numbers are idealised as reals: the
  NaN and the infinities a JSON file may hold, and the overflow of a float operation,
  are outside the model.
\<close>

datatype json =
    JNull
  | JBool bool
  | JInt int
  | JFloat real
  | JStr string
  | JList "json list"
  | JDict "(string \<times> json) list"

text \<open>Every exception class the modelled code can meet, as a value.\<close>

datatype py_error =
    AttributeError
  | TypeError
  | ValueError string
  | MissingColumnsError "string set"
  | KeyError "string list"
  | FileNotFoundError
  | JSONDecodeError
  | OSError
  | ApiError

type_synonym row = "(string \<times> json) list"

text \<open>
  Library functions the repository calls but does not define: the sector lookup
  \<^verbatim>\<open>get_spray_sector\<close> of \<^verbatim>\<open>MLB_CODE.statcast_utils\<close> (not among the sources; the
  spec treats it as a pure function from the angle to a label), Python's \<^verbatim>\<open>float\<close> on a
  string and \<^verbatim>\<open>json.load\<close>. They are parameters.
\<close>

record extern =
  get_spray_sector :: "real \<Rightarrow> json"
  float_of_str :: "string \<Rightarrow> real option"
  json_loads :: "string \<Rightarrow> json option"

text \<open>\<^verbatim>\<open>obj.get(key, default)\<close>: only a dict has the method; a key that is present with
  the value null yields null, not the default.\<close>

fun py_get :: "json \<Rightarrow> string \<Rightarrow> json \<Rightarrow> py_error + json" where
  "py_get (JDict d) k dflt = Inr (case map_of d k of None \<Rightarrow> dflt | Some v \<Rightarrow> v)"
| "py_get _ k dflt = Inl AttributeError"

text \<open>\<^verbatim>\<open>obj.get(k1, {}).get(k2)\<close>\<close>

definition py_get2 :: "json \<Rightarrow> string \<Rightarrow> string \<Rightarrow> py_error + json" where
  "py_get2 obj k1 k2 =
     (case py_get obj k1 (JDict []) of Inl e \<Rightarrow> Inl e | Inr inner \<Rightarrow> py_get inner k2 JNull)"

text \<open>\<^verbatim>\<open>for x in obj\<close>: a list yields its elements, a dict its keys, a string its
  characters; anything else is not iterable.\<close>

fun py_iter :: "json \<Rightarrow> py_error + json list" where
  "py_iter (JList xs) = Inr xs"
| "py_iter (JDict d) = Inr (map (\<lambda>kv. JStr (fst kv)) d)"
| "py_iter (JStr s) = Inr (map (\<lambda>c. JStr [c]) s)"
| "py_iter _ = Inl TypeError"

text \<open>Truthiness, as \<^verbatim>\<open>if obj:\<close> and \<^verbatim>\<open>if not obj:\<close> test it.\<close>

fun truthy :: "json \<Rightarrow> bool" where
  "truthy JNull = False"
| "truthy (JBool b) = b"
| "truthy (JInt n) = (n \<noteq> 0)"
| "truthy (JFloat r) = (r \<noteq> 0)"
| "truthy (JStr s) = (s \<noteq> [])"
| "truthy (JList xs) = (xs \<noteq> [])"
| "truthy (JDict d) = (d \<noteq> [])"

text \<open>\<^verbatim>\<open>float(obj)\<close>\<close>

fun py_float :: "extern \<Rightarrow> json \<Rightarrow> py_error + real" where
  "py_float env (JInt n) = Inr (of_int n)"
| "py_float env (JFloat r) = Inr r"
| "py_float env (JBool b) = Inr (if b then 1 else 0)"
| "py_float env (JStr s) =
     (case float_of_str env s of
        None \<Rightarrow> Inl (ValueError ''could not convert string to float'')
      | Some r \<Rightarrow> Inr r)"
| "py_float env _ = Inl TypeError"

text \<open>A dict display \<^verbatim>\<open>{k1: e1, k2: e2, ...}\<close>: the entries are evaluated in order, and
  the first one that raises ends the evaluation.\<close>

fun build_dict :: "(string \<times> (py_error + json)) list \<Rightarrow> py_error + row" where
  "build_dict [] = Inr []"
| "build_dict ((k, Inl e) # rest) = Inl e"
| "build_dict ((k, Inr v) # rest) =
     (case build_dict rest of Inl e \<Rightarrow> Inl e | Inr d \<Rightarrow> Inr ((k, v) # d))"

text \<open>\<^verbatim>\<open>{**a, **b}\<close>: the keys of \<open>a\<close> keep their place, a key of \<open>b\<close> overwrites or is
  appended.\<close>

fun dict_set :: "row \<Rightarrow> string \<Rightarrow> json \<Rightarrow> row" where
  "dict_set [] k v = [(k, v)]"
| "dict_set ((k', v') # d) k v =
     (if k' = k then (k, v) # d else (k', v') # dict_set d k v)"

definition dict_merge :: "row \<Rightarrow> row \<Rightarrow> row" where
  "dict_merge a b = foldl (\<lambda>d kv. dict_set d (fst kv) (snd kv)) a b"

section \<open>The geometry of a hit (\<^verbatim>\<open>c_get_mlb_pbp_stats.py\<close>)\<close>

definition MIN_FILE_SIZE :: nat where
  "MIN_FILE_SIZE = 100"

definition HOME_TEAM_COORD_X :: real where
  "HOME_TEAM_COORD_X = 125"

definition HOME_TEAM_COORD_Y :: real where
  "HOME_TEAM_COORD_Y = 199"

text \<open>
  \<^verbatim>\<open>np.arctan2(a, b)\<close>, the angle of the point with ordinate \<open>a\<close> and abscissa \<open>b\<close>, in
  \<open>(-\<pi>, \<pi>]\<close>, with \<open>arctan2 0 0 = 0\<close> as numpy has it. (A difference \<open>x - c\<close> of two
  floats is never the negative zero, so the signed-zero cases of the IEEE function do
  not arise in \<^verbatim>\<open>_extract_hit_data\<close>.)
\<close>

definition arctan2 :: "real \<Rightarrow> real \<Rightarrow> real" where
  "arctan2 a b =
     (if 0 < b then arctan (a / b)
      else if b < 0 then (if 0 \<le> a then arctan (a / b) + pi else arctan (a / b) - pi)
      else if 0 < a then pi / 2
      else if a < 0 then - (pi / 2)
      else 0)"

text \<open>\<^verbatim>\<open>np.degrees\<close>\<close>

definition degrees :: "real \<Rightarrow> real" where
  "degrees r = r * 180 / pi"

text \<open>Lines 242 to 245 of \<^verbatim>\<open>_extract_hit_data\<close>, on the coerced coordinates.\<close>

definition spray_angle_of :: "real \<Rightarrow> real \<Rightarrow> real" where
  "spray_angle_of fx fy =
     (let delta_x = fx - HOME_TEAM_COORD_X;
          delta_y = fy - HOME_TEAM_COORD_Y
      in degrees (arctan2 delta_x delta_y))"

definition hit_distance_of :: "real \<Rightarrow> real \<Rightarrow> real" where
  "hit_distance_of fx fy =
     (let delta_x = fx - HOME_TEAM_COORD_X;
          delta_y = fy - HOME_TEAM_COORD_Y
      in sqrt (delta_x ^ 2 + delta_y ^ 2))"

section \<open>The event extractor (\<^verbatim>\<open>c_get_mlb_pbp_stats.py\<close>)\<close>

text \<open>\<^verbatim>\<open>_extract_hit_data\<close>: \<open>Inr None\<close> is the Python \<^verbatim>\<open>return None\<close>.\<close>

definition extract_hit_data :: "extern \<Rightarrow> json \<Rightarrow> py_error + row option" where
  "extract_hit_data env event =
     (case py_get event ''hitdata'' (JDict []) of Inl e \<Rightarrow> Inl e | Inr hitdata \<Rightarrow>
      case py_get hitdata ''coordinates'' (JDict []) of Inl e \<Rightarrow> Inl e | Inr coordinates \<Rightarrow>
      case py_get coordinates ''coordx'' JNull of Inl e \<Rightarrow> Inl e | Inr coordx \<Rightarrow>
      case py_get coordinates ''coordy'' JNull of Inl e \<Rightarrow> Inl e | Inr coordy \<Rightarrow>
      if coordx = JNull \<or> coordy = JNull then Inr None
      else
        case py_float env coordx of Inl e \<Rightarrow> Inl e | Inr fx \<Rightarrow>
        case py_float env coordy of Inl e \<Rightarrow> Inl e | Inr fy \<Rightarrow>
        case py_get event ''count'' (JDict []) of Inl e \<Rightarrow> Inl e | Inr count \<Rightarrow>
        case build_dict
          [(''count_outs'', py_get count ''outs'' JNull),
           (''count_balls'', py_get count ''balls'' JNull),
           (''count_strikes'', py_get count ''strikes'' JNull),
           (''location'', py_get hitdata ''location'' JNull),
           (''launch_speed'', py_get hitdata ''launchspeed'' JNull),
           (''launch_angle'', py_get hitdata ''launchangle'' JNull),
           (''hit_trajectory'', py_get hitdata ''trajectory'' JNull),
           (''hit_hardness'', py_get hitdata ''hardness'' JNull),
           (''total_distance'', py_get hitdata ''totaldistance'' JNull),
           (''hit_location_x'', Inr coordx),
           (''hit_location_y'', Inr coordy),
           (''hit_sector'', Inr (get_spray_sector env (spray_angle_of fx fy))),
           (''hit_distance'', Inr (JFloat (hit_distance_of fx fy))),
           (''spray_angle'', Inr (JFloat (spray_angle_of fx fy)))]
        of Inl e \<Rightarrow> Inl e | Inr d \<Rightarrow> Inr (Some d))"

text \<open>\<^verbatim>\<open>_extract_play_constants\<close>\<close>

definition extract_play_constants :: "json \<Rightarrow> json \<Rightarrow> py_error + row" where
  "extract_play_constants play home_id =
     (case py_get play ''about'' (JDict []) of Inl e \<Rightarrow> Inl e | Inr about \<Rightarrow>
      case py_get play ''result'' (JDict []) of Inl e \<Rightarrow> Inl e | Inr result \<Rightarrow>
      case py_get play ''matchup'' (JDict []) of Inl e \<Rightarrow> Inl e | Inr matchup \<Rightarrow>
      build_dict
        [(''start_time'', py_get about ''starttime'' (JStr [])),
         (''end_time'', py_get about ''endtime'' (JStr [])),
         (''home_team'', Inr home_id),
         (''half_inning'', py_get about ''halfinning'' (JStr [])),
         (''inning'', py_get about ''inning'' (JStr [])),
         (''at_bat_index'', py_get about ''atbatindex'' (JStr [])),
         (''outcome'', py_get result ''eventtype'' (JStr [])),
         (''description'', py_get result ''description'' (JStr [])),
         (''batter_id'', py_get2 matchup ''batter'' ''id''),
         (''batter_hand'', py_get2 matchup ''batside'' ''code''),
         (''batter_name'', py_get2 matchup ''batter'' ''fullname''),
         (''pitcher_id'', py_get2 matchup ''pitcher'' ''id''),
         (''pitcher_hand'', py_get2 matchup ''pitchhand'' ''code''),
         (''pitcher_name'', py_get2 matchup ''pitcher'' ''fullname'')])"

text \<open>\<^verbatim>\<open>_extract_home_team_id\<close>: the inner loop over one inning's home hits (\<open>Some\<close> is
  the \<^verbatim>\<open>return home_id\<close>, \<open>None\<close> the end of the loop), then the outer loop.\<close>

fun scan_home_hits :: "json list \<Rightarrow> py_error + json option" where
  "scan_home_hits [] = Inr None"
| "scan_home_hits (team # rest) =
     (case py_get2 team ''team'' ''id'' of
        Inl e \<Rightarrow> Inl e
      | Inr home_id \<Rightarrow> if home_id \<noteq> JNull then Inr (Some home_id) else scan_home_hits rest)"

fun scan_innings :: "json list \<Rightarrow> py_error + json" where
  "scan_innings [] = Inr JNull"
| "scan_innings (inning # rest) =
     (case py_get inning ''hits'' (JDict []) of Inl e \<Rightarrow> Inl e | Inr hits \<Rightarrow>
      case py_get hits ''home'' (JList []) of Inl e \<Rightarrow> Inl e | Inr home_team_hits \<Rightarrow>
      case py_iter home_team_hits of Inl e \<Rightarrow> Inl e | Inr teams \<Rightarrow>
      case scan_home_hits teams of
        Inl e \<Rightarrow> Inl e
      | Inr (Some home_id) \<Rightarrow> Inr home_id
      | Inr None \<Rightarrow> scan_innings rest)"

definition extract_home_team_id :: "json \<Rightarrow> py_error + json" where
  "extract_home_team_id playsbyinning =
     (case py_iter playsbyinning of Inl e \<Rightarrow> Inl e | Inr innings \<Rightarrow> scan_innings innings)"

text \<open>
  \<^verbatim>\<open>_process_game_file\<close> appends to the caller's list \<open>data\<close> in place, so the rows
  appended before an exception stay in it. The loops return the exception, if any,
  with the list as it then is.
\<close>

text \<open>The body of the loop over a play's events (lines 160 to 165).\<close>

definition process_event ::
  "extern \<Rightarrow> row \<Rightarrow> json \<Rightarrow> row list \<Rightarrow> py_error option \<times> row list" where
  "process_event env constants event data =
     (case py_get2 event ''details'' ''isinplay'' of
        Inl e \<Rightarrow> (Some e, data)
      | Inr flag \<Rightarrow>
          if truthy flag then
            (case extract_hit_data env event of
               Inl e \<Rightarrow> (Some e, data)
             | Inr None \<Rightarrow> (None, data)
             | Inr (Some hit_data) \<Rightarrow>
                 if hit_data \<noteq> [] then (None, data @ [dict_merge constants hit_data])
                 else (None, data))
          else (None, data))"

fun process_events ::
  "extern \<Rightarrow> row \<Rightarrow> json list \<Rightarrow> row list \<Rightarrow> py_error option \<times> row list" where
  "process_events env constants [] data = (None, data)"
| "process_events env constants (event # rest) data =
     (case process_event env constants event data of
        (Some e, data') \<Rightarrow> (Some e, data')
      | (None, data') \<Rightarrow> process_events env constants rest data')"

text \<open>The body of the loop over the plays (lines 153 to 165).\<close>

definition process_play ::
  "extern \<Rightarrow> json \<Rightarrow> json \<Rightarrow> row list \<Rightarrow> py_error option \<times> row list" where
  "process_play env home_id play data =
     (case py_get play ''playevents'' (JList []) of Inl e \<Rightarrow> (Some e, data) | Inr play_events \<Rightarrow>
      case extract_play_constants play home_id of Inl e \<Rightarrow> (Some e, data) | Inr constants \<Rightarrow>
      case py_iter play_events of Inl e \<Rightarrow> (Some e, data) | Inr events \<Rightarrow>
      process_events env constants events data)"

fun process_plays ::
  "extern \<Rightarrow> json \<Rightarrow> json list \<Rightarrow> row list \<Rightarrow> py_error option \<times> row list" where
  "process_plays env home_id [] data = (None, data)"
| "process_plays env home_id (play # rest) data =
     (case process_play env home_id play data of
        (Some e, data') \<Rightarrow> (Some e, data')
      | (None, data') \<Rightarrow> process_plays env home_id rest data')"

text \<open>\<^verbatim>\<open>_process_game_file\<close> from line 143 on: the parsed document.\<close>

definition process_game_doc ::
  "extern \<Rightarrow> json \<Rightarrow> row list \<Rightarrow> py_error option \<times> row list" where
  "process_game_doc env game_data data =
     (case py_get game_data ''allplays'' (JList []) of Inl e \<Rightarrow> (Some e, data) | Inr all_plays \<Rightarrow>
      case py_get game_data ''playsbyinning'' (JList []) of Inl e \<Rightarrow> (Some e, data) | Inr playsbyinning \<Rightarrow>
      if \<not> truthy all_plays then (None, data)
      else
        case extract_home_team_id playsbyinning of Inl e \<Rightarrow> (Some e, data) | Inr home_id \<Rightarrow>
        case py_iter all_plays of Inl e \<Rightarrow> (Some e, data) | Inr plays \<Rightarrow>
        process_plays env home_id plays data)"

text \<open>
  A file of the season directory: its bytes, or the error that \<^verbatim>\<open>stat\<close> or \<^verbatim>\<open>open\<close>
  raises on it. \<^verbatim>\<open>_process_game_file\<close> as a whole.
\<close>

type_synonym disk_file = "py_error + string"

definition process_game_file ::
  "extern \<Rightarrow> disk_file \<Rightarrow> row list \<Rightarrow> py_error option \<times> row list" where
  "process_game_file env file data =
     (case file of
        Inl e \<Rightarrow> (Some e, data)
      | Inr bytes \<Rightarrow>
          if length bytes < MIN_FILE_SIZE then (None, data)
          else
            case json_loads env bytes of
              None \<Rightarrow> (Some JSONDecodeError, data)
            | Some game_data \<Rightarrow> process_game_doc env game_data data)"

text \<open>
  \<^verbatim>\<open>compile_play_events\<close>. What \<^verbatim>\<open>folder_path / str(season_year)\<close> is on disk: absent,
  not a directory, or a directory with the files that \<^verbatim>\<open>glob("*.json")\<close> lists. The
  loop catches every exception of a file and goes on; the messages keep their fixed
  part.
\<close>

datatype folder = NoFolder | NotADirectory | Directory "disk_file list"

fun collect_files :: "extern \<Rightarrow> disk_file list \<Rightarrow> row list \<Rightarrow> row list" where
  "collect_files env [] data = data"
| "collect_files env (filepath # rest) data =
     collect_files env rest (snd (process_game_file env filepath data))"

definition compile_play_events :: "extern \<Rightarrow> folder \<Rightarrow> py_error + row list" where
  "compile_play_events env folder_path =
     (case folder_path of
        NoFolder \<Rightarrow> Inl (ValueError ''Folder path does not exist'')
      | NotADirectory \<Rightarrow> Inl (ValueError ''Path is not a directory'')
      | Directory json_files \<Rightarrow>
          if json_files = [] then Inl (ValueError ''No JSON files found'')
          else
            let data = collect_files env json_files []
            in if data = [] then Inl (ValueError ''No hit events extracted from any files'')
               else Inr data)"

section \<open>The claims' notions, in the spec's words\<close>

text \<open>
  The defensive accessor of the spec: the member \<open>k\<close> of a mapping, and the absent
  marker (null) when \<open>obj\<close> is not a mapping or has no such member.
\<close>

fun field :: "json \<Rightarrow> string \<Rightarrow> json" where
  "field (JDict d) k = (case map_of d k of None \<Rightarrow> JNull | Some v \<Rightarrow> v)"
| "field _ k = JNull"

text \<open>
  A play event qualifies when its in-play flag is set and both hit coordinates are
  present and not null.
\<close>

definition in_play :: "json \<Rightarrow> bool" where
  "in_play event = truthy (field (field event ''details'') ''isinplay'')"

definition coordinate :: "json \<Rightarrow> string \<Rightarrow> json" where
  "coordinate event k = field (field (field event ''hitdata'') ''coordinates'') k"

definition qualifies :: "json \<Rightarrow> bool" where
  "qualifies event =
     (in_play event \<and> coordinate event ''coordx'' \<noteq> JNull \<and> coordinate event ''coordy'' \<noteq> JNull)"

text \<open>
  The records a document is expected to yield: for each play in order, for each
  qualifying event of the play in order, the play's constants merged with the event's
  hit data. Where the code raises, the accessors below give an empty value.
\<close>

definition event_row :: "extern \<Rightarrow> row \<Rightarrow> json \<Rightarrow> row" where
  "event_row env constants event =
     dict_merge constants
       (case extract_hit_data env event of Inr (Some hit_data) \<Rightarrow> hit_data | _ \<Rightarrow> [])"

definition play_events :: "json \<Rightarrow> json list" where
  "play_events play =
     (case py_get play ''playevents'' (JList []) of
        Inr pe \<Rightarrow> (case py_iter pe of Inr events \<Rightarrow> events | Inl e \<Rightarrow> [])
      | Inl e \<Rightarrow> [])"

definition play_rows :: "extern \<Rightarrow> json \<Rightarrow> json \<Rightarrow> row list" where
  "play_rows env home_id play =
     map (event_row env (case extract_play_constants play home_id of Inr c \<Rightarrow> c | Inl e \<Rightarrow> []))
       (filter qualifies (play_events play))"

definition doc_plays :: "json \<Rightarrow> json list" where
  "doc_plays game_data =
     (case py_get game_data ''allplays'' (JList []) of
        Inr all_plays \<Rightarrow> (case py_iter all_plays of Inr plays \<Rightarrow> plays | Inl e \<Rightarrow> [])
      | Inl e \<Rightarrow> [])"

definition doc_home_id :: "json \<Rightarrow> json" where
  "doc_home_id game_data =
     (case py_get game_data ''playsbyinning'' (JList []) of
        Inr pbi \<Rightarrow> (case extract_home_team_id pbi of Inr h \<Rightarrow> h | Inl e \<Rightarrow> JNull)
      | Inl e \<Rightarrow> JNull)"

definition expected_rows :: "extern \<Rightarrow> json \<Rightarrow> row list" where
  "expected_rows env game_data =
     concat (map (play_rows env (doc_home_id game_data)) (doc_plays game_data))"

text \<open>
  The first non-null team identifier under the "home" key, scanning the per-inning hit
  breakdown in order; null when there is none.
\<close>

fun items :: "json \<Rightarrow> json list" where
  "items (JList xs) = xs"
| "items _ = []"

definition team_id :: "json \<Rightarrow> json" where
  "team_id team = field (field team ''team'') ''id''"

definition inning_home_ids :: "json \<Rightarrow> json list" where
  "inning_home_ids inning = map team_id (items (field (field inning ''hits'') ''home''))"

definition first_home_id :: "json \<Rightarrow> json" where
  "first_home_id playsbyinning =
     (case List.find (\<lambda>i. i \<noteq> JNull) (concat (map inning_home_ids (items playsbyinning))) of
        None \<Rightarrow> JNull
      | Some i \<Rightarrow> i)"

text \<open>
  A well-shaped breakdown: a list of mappings; the "hits" member of an inning, where
  present, is a mapping; its "home" member, where present, is a list of mappings; the
  "team" member of each of those, where present, is a mapping.
\<close>

fun is_dict :: "json \<Rightarrow> bool" where
  "is_dict (JDict d) = True"
| "is_dict _ = False"

definition member_ok :: "(json \<Rightarrow> bool) \<Rightarrow> json \<Rightarrow> string \<Rightarrow> bool" where
  "member_ok P obj k =
     (case obj of
        JDict d \<Rightarrow> (case map_of d k of None \<Rightarrow> True | Some v \<Rightarrow> P v)
      | _ \<Rightarrow> False)"

definition well_shaped_team :: "json \<Rightarrow> bool" where
  "well_shaped_team team = member_ok is_dict team ''team''"

definition well_shaped_home :: "json \<Rightarrow> bool" where
  "well_shaped_home home = (case home of JList teams \<Rightarrow> list_all well_shaped_team teams | _ \<Rightarrow> False)"

definition well_shaped_inning :: "json \<Rightarrow> bool" where
  "well_shaped_inning inning =
     member_ok (\<lambda>hits. member_ok well_shaped_home hits ''home'') inning ''hits''"

definition well_shaped_breakdown :: "json \<Rightarrow> bool" where
  "well_shaped_breakdown playsbyinning =
     (case playsbyinning of
        JList innings \<Rightarrow> list_all well_shaped_inning innings
      | _ \<Rightarrow> False)"

section \<open>The object-to-mapping conversion (\<^verbatim>\<open>_to_dict\<close>, both modules)\<close>

text \<open>
  The values \<^verbatim>\<open>_to_dict\<close> walks, as finite trees: a dict (a list of key and value
  pairs), a list, an instance with a \<^verbatim>\<open>__dict__\<close> (its attributes by name), and an
  atom for everything else, which the last branch returns as it is: \<^verbatim>\<open>None\<close>, numbers,
  strings, and any other object without a \<^verbatim>\<open>__dict__\<close> (\<open>AOther\<close>). The keys of a dict
  are left as they are.
\<close>

datatype atom = ANone | ABool bool | AInt int | AFloat real | AStr string | AOther nat

datatype pyobj =
    Atom atom
  | PList "pyobj list"
  | PDict "(pyobj \<times> pyobj) list"
  | Instance "(string \<times> pyobj) list"

text \<open>\<^verbatim>\<open>k.startswith("_")\<close>\<close>

definition startswith_underscore :: "string \<Rightarrow> bool" where
  "startswith_underscore k = (case k of [] \<Rightarrow> False | c # rest \<Rightarrow> c = CHR ''_'')"

fun to_dict :: "pyobj \<Rightarrow> pyobj" where
  "to_dict (PDict entries) = PDict (map (\<lambda>kv. (fst kv, to_dict (snd kv))) entries)"
| "to_dict (PList xs) = PList (map to_dict xs)"
| "to_dict (Instance attrs) =
     PDict (map (\<lambda>kv. (Atom (AStr (fst kv)), to_dict (snd kv)))
              (filter (\<lambda>kv. \<not> startswith_underscore (fst kv)) attrs))"
| "to_dict (Atom a) = Atom a"

text \<open>\<^verbatim>\<open>str(n)\<close> for an integer, as an f-string renders it.\<close>

definition digit_char :: "nat \<Rightarrow> char" where
  "digit_char d = ''0123456789'' ! d"

fun digits :: "nat \<Rightarrow> string" where
  "digits n = (if n < 10 then [digit_char n] else digits (n div 10) @ [digit_char (n mod 10)])"

declare digits.simps [simp del]

definition string_of_int :: "int \<Rightarrow> string" where
  "string_of_int i = (if i < 0 then CHR ''-'' # digits (nat (- i)) else digits (nat i))"

text \<open>
  A value made of plain dictionaries, lists and primitives only (\<open>is_plain\<close>), and a
  value in which no list item and no dict value, at any depth, is an instance
  (\<open>converted\<close>: what \<^verbatim>\<open>_to_dict\<close> returns).
\<close>

fun is_plain :: "pyobj \<Rightarrow> bool" where
  "is_plain (Atom a) = True"
| "is_plain (PList xs) = list_all is_plain xs"
| "is_plain (PDict entries) = list_all (\<lambda>kv. is_plain (fst kv) \<and> is_plain (snd kv)) entries"
| "is_plain (Instance attrs) = False"

fun converted :: "pyobj \<Rightarrow> bool" where
  "converted (Atom a) = True"
| "converted (PList xs) = list_all converted xs"
| "converted (PDict entries) = list_all (\<lambda>kv. converted (snd kv)) entries"
| "converted (Instance attrs) = False"

section \<open>The fetch orchestrator (\<^verbatim>\<open>b_get_mlb_pbp_data.py\<close>)\<close>

definition MIN_VALID_FILE_SIZE :: nat where
  "MIN_VALID_FILE_SIZE = 2048"

definition REQUIRED_SCHEDULE_COLUMNS :: "string set" where
  "REQUIRED_SCHEDULE_COLUMNS = {''game_pk'', ''date'', ''home_team'', ''away_team''}"

text \<open>
  What a path is on disk, as \<^verbatim>\<open>_is_valid_cache\<close> meets it: absent (\<^verbatim>\<open>exists()\<close> is
  false); a path on which \<^verbatim>\<open>Path.exists()\<close> itself raises (it re-raises every
  \<^verbatim>\<open>OSError\<close> but ENOENT, ENOTDIR, EBADF and ELOOP: a permission error, a name that is
  too long); a path that exists and on which the later \<^verbatim>\<open>stat()\<close> raises; or a file with
  its bytes.
\<close>

datatype entry = Absent | Unreachable | Unstatable | File string

type_synonym disk = "string \<Rightarrow> entry"

fun path_exists :: "entry \<Rightarrow> py_error + bool" where
  "path_exists Absent = Inr False"
| "path_exists Unreachable = Inl OSError"
| "path_exists Unstatable = Inr True"
| "path_exists (File bytes) = Inr True"

fun path_stat_size :: "entry \<Rightarrow> py_error + nat" where
  "path_stat_size (File bytes) = Inr (length bytes)"
| "path_stat_size _ = Inl OSError"

text \<open>
  \<^verbatim>\<open>_is_valid_cache\<close>: the call of \<^verbatim>\<open>exists()\<close> stands before the \<^verbatim>\<open>try\<close>, so what it
  raises leaves the function; what \<^verbatim>\<open>stat()\<close> raises inside the \<^verbatim>\<open>try\<close> becomes
  \<^verbatim>\<open>False\<close>.
\<close>

definition is_valid_cache :: "disk \<Rightarrow> string \<Rightarrow> py_error + bool" where
  "is_valid_cache fs cache_file =
     (case path_exists (fs cache_file) of
        Inl e \<Rightarrow> Inl e
      | Inr found \<Rightarrow>
          if \<not> found then Inr False
          else
            case path_stat_size (fs cache_file) of
              Inr file_size \<Rightarrow> Inr (file_size > MIN_VALID_FILE_SIZE)
            | Inl e \<Rightarrow> Inr False)"

text \<open>
  What the run cannot decide: the answer of the remote API for a game identifier, how
  writing a cache file ends (written; \<^verbatim>\<open>open\<close> raises and the file is untouched;
  \<^verbatim>\<open>json.dump\<close> raises after \<open>n\<close> bytes), whether \<^verbatim>\<open>mkdir\<close> raises on a directory, and the
  text \<^verbatim>\<open>json.dump(indent=2)\<close> writes for a document.
\<close>

datatype save_result = Saved | OpenFailed | DumpFailed nat

record world =
  api_play_by_play :: "int \<Rightarrow> py_error + pyobj"
  save_outcome :: "string \<Rightarrow> save_result"
  mkdir_fails :: "string \<Rightarrow> bool"
  json_dump :: "pyobj \<Rightarrow> string"

text \<open>\<^verbatim>\<open>_fetch_game_pbp\<close> (it logs and re-raises) and \<^verbatim>\<open>_save_game_pbp\<close> (likewise).\<close>

definition fetch_game_pbp :: "world \<Rightarrow> int \<Rightarrow> py_error + pyobj" where
  "fetch_game_pbp w game_id =
     (case api_play_by_play w game_id of
        Inl e \<Rightarrow> Inl e
      | Inr response \<Rightarrow> Inr (to_dict response))"

definition save_game_pbp :: "world \<Rightarrow> pyobj \<Rightarrow> string \<Rightarrow> disk \<Rightarrow> py_error option \<times> disk" where
  "save_game_pbp w game_data output_file fs =
     (case save_outcome w output_file of
        Saved \<Rightarrow> (None, fs(output_file := File (json_dump w game_data)))
      | OpenFailed \<Rightarrow> (Some OSError, fs)
      | DumpFailed n \<Rightarrow> (Some OSError, fs(output_file := File (take n (json_dump w game_data)))))"

text \<open>
  A row of the schedule, as \<^verbatim>\<open>_process_games\<close> reads it: what \<^verbatim>\<open>int(row.game_pk)\<close>
  returns or raises, what \<^verbatim>\<open>pd.to_datetime(row.date).year\<close> returns (as the f-string
  renders it) or raises, the two team codes, and whether one of \<^verbatim>\<open>game_pk\<close>,
  \<^verbatim>\<open>home_id\<close>, \<^verbatim>\<open>away_id\<close> is missing in the row (\<^verbatim>\<open>dropna\<close> then drops it).
\<close>

record game_ref =
  game_pk :: "py_error + int"
  date_year :: "py_error + string"
  home_team :: string
  away_team :: string
  ids_missing :: bool

text \<open>
  The state of a run: the two counters, the keys of \<^verbatim>\<open>season_dirs\<close>, the disk, and a
  log of the API calls, of the cache files opened for writing and of the warnings.
\<close>

record run_state =
  cached_count :: nat
  skipped_count :: nat
  season_dirs :: "string set"
  files :: disk
  api_calls :: "int list"
  cache_writes :: "string list"
  warnings :: "py_error list"

definition log_warning :: "py_error \<Rightarrow> run_state \<Rightarrow> run_state" where
  "log_warning e st = st\<lparr>warnings := warnings st @ [e]\<rparr>"

definition game_file_path :: "string \<Rightarrow> int \<Rightarrow> string \<Rightarrow> string \<Rightarrow> string" where
  "game_file_path season_dir game_id home away =
     season_dir @ ''/GAMEPK_'' @ string_of_int game_id @ ''_'' @ home @ ''_VS_'' @ away @ ''.json''"

text \<open>Lines 176 to 181: get or create the season directory.\<close>

definition get_season_dir :: "world \<Rightarrow> string \<Rightarrow> string \<Rightarrow> run_state \<Rightarrow> py_error + run_state" where
  "get_season_dir w cache_dir game_year st =
     (if game_year \<notin> season_dirs st then
        (if mkdir_fails w (cache_dir @ ''/'' @ game_year) then Inl OSError
         else Inr (st\<lparr>season_dirs := insert game_year (season_dirs st)\<rparr>))
      else Inr st)"

text \<open>
  Lines 194 to 203, under the handler of lines 205 to 207: fetch, save, count, sleep
  (\<^verbatim>\<open>time.sleep\<close> raises \<^verbatim>\<open>ValueError\<close> on a negative delay). Every exception becomes a
  warning and the loop continues.
\<close>

definition fetch_and_save ::
  "world \<Rightarrow> real \<Rightarrow> int \<Rightarrow> string \<Rightarrow> run_state \<Rightarrow> run_state" where
  "fetch_and_save w rate_limit_delay game_id game_file st =
     (let st1 = st\<lparr>api_calls := api_calls st @ [game_id]\<rparr> in
      case fetch_game_pbp w game_id of
        Inl e \<Rightarrow> log_warning e st1
      | Inr game_data \<Rightarrow>
          let st2 = st1\<lparr>cache_writes := cache_writes st1 @ [game_file]\<rparr> in
          case save_game_pbp w game_data game_file (files st2) of
            (Some e, fs) \<Rightarrow> log_warning e (st2\<lparr>files := fs\<rparr>)
          | (None, fs) \<Rightarrow>
              let st3 = st2\<lparr>files := fs, cached_count := cached_count st2 + 1\<rparr> in
              if rate_limit_delay < 0
              then log_warning (ValueError ''sleep length must be non-negative'') st3
              else st3)"

text \<open>
  The test of line 186, \<^verbatim>\<open>not force_refresh and _is_valid_cache(game_file)\<close>: with
  \<^verbatim>\<open>force_refresh\<close> the validity check is not called.
\<close>

definition should_skip :: "bool \<Rightarrow> disk \<Rightarrow> string \<Rightarrow> py_error + bool" where
  "should_skip force_refresh fs game_file =
     (if force_refresh then Inr False else is_valid_cache fs game_file)"

text \<open>The body of the loop of \<^verbatim>\<open>_process_games\<close>, and the loop.\<close>

definition process_row ::
  "world \<Rightarrow> string \<Rightarrow> bool \<Rightarrow> real \<Rightarrow> run_state \<Rightarrow> game_ref \<Rightarrow> run_state" where
  "process_row w cache_dir force_refresh rate_limit_delay st row =
     (case game_pk row of Inl e \<Rightarrow> log_warning e st | Inr game_id \<Rightarrow>
      case date_year row of Inl e \<Rightarrow> log_warning e st | Inr game_year \<Rightarrow>
      case get_season_dir w cache_dir game_year st of Inl e \<Rightarrow> log_warning e st | Inr st1 \<Rightarrow>
        let game_file =
              game_file_path (cache_dir @ ''/'' @ game_year) game_id (home_team row) (away_team row)
        in case should_skip force_refresh (files st1) game_file of
             Inl e \<Rightarrow> log_warning e st1
           | Inr skip \<Rightarrow>
               if skip then st1\<lparr>skipped_count := skipped_count st1 + 1\<rparr>
               else fetch_and_save w rate_limit_delay game_id game_file st1)"

definition start_state :: "disk \<Rightarrow> run_state" where
  "start_state fs =
     \<lparr>cached_count = 0, skipped_count = 0, season_dirs = {}, files = fs,
      api_calls = [], cache_writes = [], warnings = []\<rparr>"

definition process_games ::
  "world \<Rightarrow> string \<Rightarrow> bool \<Rightarrow> real \<Rightarrow> disk \<Rightarrow> game_ref list \<Rightarrow> run_state" where
  "process_games w cache_dir force_refresh rate_limit_delay fs schedule =
     foldl (process_row w cache_dir force_refresh rate_limit_delay) (start_state fs) schedule"

text \<open>
  The schedule file: absent, unreadable by \<^verbatim>\<open>pd.read_csv\<close>, or a table with its column
  names and rows. \<^verbatim>\<open>DataFrame.dropna(subset=...)\<close> raises \<^verbatim>\<open>KeyError\<close> with the labels of
  \<open>subset\<close> that are not columns, and otherwise drops the rows with a missing value in
  one of them.
\<close>

datatype schedule_file = NoScheduleFile | UnreadableCsv py_error | Csv "string list" "game_ref list"

definition dropna_subset :: "string list \<Rightarrow> string list \<Rightarrow> game_ref list \<Rightarrow> py_error + game_ref list" where
  "dropna_subset columns labels rows =
     (let absent = filter (\<lambda>c. c \<notin> set columns) labels
      in if absent \<noteq> [] then Inl (KeyError absent)
         else Inr (filter (\<lambda>r. \<not> ids_missing r) rows))"

text \<open>\<^verbatim>\<open>_load_and_validate_schedule\<close> and \<^verbatim>\<open>get_mlb_pbp_data\<close> (its handlers log and
  re-raise). The run returns its final state, which holds the two counters.\<close>

definition load_and_validate_schedule :: "schedule_file \<Rightarrow> py_error + game_ref list" where
  "load_and_validate_schedule schedule_path =
     (case schedule_path of
        NoScheduleFile \<Rightarrow> Inl FileNotFoundError
      | UnreadableCsv e \<Rightarrow> Inl e
      | Csv columns rows \<Rightarrow>
          (case dropna_subset columns [''game_pk'', ''home_id'', ''away_id''] rows of
             Inl e \<Rightarrow> Inl e
           | Inr schedule \<Rightarrow>
               let missing_columns = REQUIRED_SCHEDULE_COLUMNS - set columns
               in if missing_columns \<noteq> {} then Inl (MissingColumnsError missing_columns)
                  else Inr schedule))"

definition get_mlb_pbp_data ::
  "world \<Rightarrow> schedule_file \<Rightarrow> int \<Rightarrow> string \<Rightarrow> bool \<Rightarrow> real \<Rightarrow> disk \<Rightarrow> py_error + run_state" where
  "get_mlb_pbp_data w schedule_path year cache_dir force_refresh rate_limit_delay fs =
     (case load_and_validate_schedule schedule_path of
        Inl e \<Rightarrow> Inl e
      | Inr schedule \<Rightarrow>
          if mkdir_fails w (cache_dir @ ''/'' @ string_of_int year) then Inl OSError
          else if mkdir_fails w cache_dir then Inl OSError
          else Inr (process_games w cache_dir force_refresh rate_limit_delay fs schedule))"

text \<open>
  The cache path \<^verbatim>\<open>_process_games\<close> derives for a row, and what makes the loop skip the
  row when \<^verbatim>\<open>force_refresh\<close> is false: the row parses, its season directory can be
  made, and its cache file is valid.
\<close>

definition skippable :: "world \<Rightarrow> string \<Rightarrow> disk \<Rightarrow> game_ref \<Rightarrow> bool" where
  "skippable w cache_dir fs row =
     (case game_pk row of
        Inl e \<Rightarrow> False
      | Inr game_id \<Rightarrow>
          (case date_year row of
             Inl e \<Rightarrow> False
           | Inr game_year \<Rightarrow>
               \<not> mkdir_fails w (cache_dir @ ''/'' @ game_year)
               \<and> is_valid_cache fs
                    (game_file_path (cache_dir @ ''/'' @ game_year) game_id
                       (home_team row) (away_team row)) = Inr True))"

definition dirs_made :: "world \<Rightarrow> string \<Rightarrow> run_state \<Rightarrow> bool" where
  "dirs_made w cache_dir st =
     (\<forall>y\<in>season_dirs st. \<not> mkdir_fails w (cache_dir @ ''/'' @ y))"

section \<open>Example data\<close>

text \<open>Stand-ins for the library functions, and small game documents.\<close>

definition stub_env :: extern where
  "stub_env =
     \<lparr>get_spray_sector = (\<lambda>angle. JStr ''CF''),
      float_of_str = (\<lambda>s. None),
      json_loads = (\<lambda>s. None)\<rparr>"

definition play_event :: "json \<Rightarrow> json \<Rightarrow> json \<Rightarrow> json" where
  "play_event flag x y =
     JDict [(''details'', JDict [(''isinplay'', flag)]),
            (''hitdata'', JDict [(''coordinates'', JDict [(''coordx'', x), (''coordy'', y)])])]"

definition null_hitdata_event :: json where
  "null_hitdata_event =
     JDict [(''details'', JDict [(''isinplay'', JBool True)]), (''hitdata'', JNull)]"

definition one_play_doc :: "json list \<Rightarrow> json \<Rightarrow> json" where
  "one_play_doc events playsbyinning =
     JDict [(''allplays'', JList [JDict [(''playevents'', JList events)]]),
            (''playsbyinning'', playsbyinning)]"

definition three_event_doc :: json where
  "three_event_doc =
     one_play_doc
       [play_event (JBool False) (JInt 150) (JInt 175),
        play_event (JBool True) JNull (JInt 175),
        play_event (JBool True) (JInt 125) (JInt 99)]
       (JList [])"

definition aborted_doc :: json where
  "aborted_doc =
     one_play_doc [null_hitdata_event, play_event (JBool True) (JInt 150) (JInt 175)] (JList [])"

definition sample_object :: pyobj where
  "sample_object =
     Instance [(''gamepk'', Atom (AInt 745444)),
               (''_client'', Atom (AOther 0)),
               (''allplays'', PList [Instance [(''about'', PDict [(Atom (AStr ''inning''), Atom (AInt 1))])]])]"

text \<open>Example worlds, rows and disks.\<close>

definition empty_disk :: disk where
  "empty_disk = (\<lambda>p. Absent)"

definition stub_world :: "(int \<Rightarrow> py_error + pyobj) \<Rightarrow> save_result \<Rightarrow> nat \<Rightarrow> world" where
  "stub_world api outcome n =
     \<lparr>api_play_by_play = api,
      save_outcome = (\<lambda>p. outcome),
      mkdir_fails = (\<lambda>p. False),
      json_dump = (\<lambda>doc. replicate n (CHR ''x''))\<rparr>"

definition api_up :: "int \<Rightarrow> py_error + pyobj" where
  "api_up game_id = Inr sample_object"

definition api_down :: "int \<Rightarrow> py_error + pyobj" where
  "api_down game_id = Inl ApiError"

definition sample_row :: game_ref where
  "sample_row =
     \<lparr>game_pk = Inr 745444, date_year = Inr ''2024'', home_team = ''NYY'', away_team = ''BOS'',
      ids_missing = False\<rparr>"

definition sample_columns :: "string list" where
  "sample_columns =
     [''date'', ''game_pk'', ''home_id'', ''home_team'', ''away_id'', ''away_team'']"

definition breakdown_with_id :: json where
  "breakdown_with_id =
     JList
       [JDict [(''hits'', JDict [(''home'', JList [JDict [(''team'', JDict [(''id'', JNull)])]])])],
        JDict [(''hits'', JDict [(''away'', JList [JDict [(''team'', JDict [(''id'', JInt 111)])]])])],
        JDict [(''hits'', JDict [(''home'', JList [JDict [(''team'', JDict [(''id'', JInt 147)])],
                                                   JDict [(''team'', JDict [(''id'', JInt 999)])]])])]]"

definition breakdown_without_id :: json where
  "breakdown_without_id =
     JList [JDict [], JDict [(''hits'', JDict [(''home'', JList [JDict [(''inning'', JInt 1)]])])]]"

definition breakdown_null_team :: json where
  "breakdown_null_team =
     JList [JDict [(''hits'', JDict [(''home'', JList [JDict [(''team'', JNull)]])])]]"

definition second_row :: game_ref where
  "second_row =
     \<lparr>game_pk = Inr 745445, date_year = Inr ''2024'', home_team = ''LAD'', away_team = ''SF'',
      ids_missing = False\<rparr>"

definition malformed_row :: game_ref where
  "malformed_row =
     \<lparr>game_pk = Inl (ValueError ''invalid literal for int()''), date_year = Inr ''2024'',
      home_team = ''NYY'', away_team = ''BOS'', ids_missing = False\<rparr>"

section \<open>Proofs: the records of a game document\<close>

lemma py_get_Inr_iff:
  "py_get obj k dflt = Inr v \<longleftrightarrow>
     (\<exists>d. obj = JDict d \<and> v = (case map_of d k of None \<Rightarrow> dflt | Some w \<Rightarrow> w))"
  by (cases obj) auto

lemma py_get2_field: "py_get2 obj k1 k2 = Inr v \<Longrightarrow> field (field obj k1) k2 = v"
  unfolding py_get2_def
  by (auto simp: py_get_Inr_iff split: sum.splits option.splits)

lemma py_get_null_field: "py_get obj k JNull = Inr v \<Longrightarrow> field obj k = v"
  by (auto simp: py_get_Inr_iff split: option.splits)

lemma py_get_empty_field: "py_get obj k (JDict []) = Inr v \<Longrightarrow> field v k' = field (field obj k) k'"
  by (auto simp: py_get_Inr_iff split: option.splits)

lemma build_dict_nonempty: "build_dict (x # xs) = Inr d \<Longrightarrow> d \<noteq> []"
  by (cases x; cases "snd x") (auto split: sum.splits)

lemma extract_hit_data_coords:
  assumes "extract_hit_data env ev = Inr res"
  shows "(res = None \<longrightarrow> coordinate ev ''coordx'' = JNull \<or> coordinate ev ''coordy'' = JNull)
       \<and> (\<forall>hd. res = Some hd \<longrightarrow> hd \<noteq> [] \<and> coordinate ev ''coordx'' \<noteq> JNull \<and> coordinate ev ''coordy'' \<noteq> JNull)"
proof -
  from assms obtain hitdata coordinates coordx coordy where
    h: "py_get ev ''hitdata'' (JDict []) = Inr hitdata"
    and c: "py_get hitdata ''coordinates'' (JDict []) = Inr coordinates"
    and x: "py_get coordinates ''coordx'' JNull = Inr coordx"
    and y: "py_get coordinates ''coordy'' JNull = Inr coordy"
    unfolding extract_hit_data_def by (auto split: sum.splits)
  have cx: "coordinate ev ''coordx'' = coordx" and cy: "coordinate ev ''coordy'' = coordy"
    unfolding coordinate_def
    using py_get_empty_field [OF h, of "''coordinates''"] py_get_empty_field [OF c]
      py_get_null_field [OF x] py_get_null_field [OF y]
    by simp_all
  show ?thesis
    using assms build_dict_nonempty unfolding extract_hit_data_def cx cy
    by (auto simp: h c x y split: sum.splits if_splits)
qed

lemma process_event_cases:
  assumes "process_event env c ev data = (r, data')"
  shows "(r = None \<and> qualifies ev \<and> data' = data @ [event_row env c ev])
       \<or> (r = None \<and> \<not> qualifies ev \<and> data' = data)
       \<or> (r \<noteq> None \<and> data' = data)"
proof (cases "py_get2 ev ''details'' ''isinplay''")
  case (Inl e)
  with assms show ?thesis by (auto simp: process_event_def)
next
  case (Inr flag)
  then have ip: "in_play ev = truthy flag"
    by (simp add: in_play_def py_get2_field)
  show ?thesis
  proof (cases "truthy flag")
    case False
    with assms Inr ip show ?thesis by (auto simp: process_event_def qualifies_def)
  next
    case True
    show ?thesis
    proof (cases "extract_hit_data env ev")
      case (Inl e)
      with assms \<open>py_get2 ev ''details'' ''isinplay'' = Inr flag\<close> True show ?thesis
        by (auto simp: process_event_def)
    next
      case hd: (Inr res)
      from extract_hit_data_coords [OF hd] assms Inr True ip hd show ?thesis
        by (cases res) (auto simp: process_event_def qualifies_def event_row_def)
    qed
  qed
qed

lemma process_events_rows:
  "process_events env c evs data = (r, data') \<Longrightarrow>
     \<exists>done rest. data' = data @ done
       \<and> map (event_row env c) (filter qualifies evs) = done @ rest
       \<and> (r = None \<longrightarrow> rest = [])"
proof (induction evs arbitrary: data)
  case Nil
  then show ?case by simp
next
  case (Cons ev evs)
  obtain r1 d1 where s: "process_event env c ev data = (r1, d1)"
    by (cases "process_event env c ev data")
  show ?case
  proof (cases r1)
    case (Some e)
    with Cons.prems s process_event_cases [OF s] show ?thesis by auto
  next
    case None
    with Cons.prems s have "process_events env c evs d1 = (r, data')" by simp
    from Cons.IH [OF this] obtain dn rest where
      "data' = d1 @ dn" "map (event_row env c) (filter qualifies evs) = dn @ rest"
      "r = None \<longrightarrow> rest = []" by blast
    with process_event_cases [OF s] None show ?thesis
      by (cases "qualifies ev") auto
  qed
qed

lemma process_play_rows:
  assumes "process_play env home_id play data = (r, data')"
  shows "\<exists>done rest. data' = data @ done
       \<and> play_rows env home_id play = done @ rest
       \<and> (r = None \<longrightarrow> rest = [])"
proof (cases "\<exists>pe c evs. py_get play ''playevents'' (JList []) = Inr pe
      \<and> extract_play_constants play home_id = Inr c \<and> py_iter pe = Inr evs")
  case True
  then obtain pe c evs where
    p: "py_get play ''playevents'' (JList []) = Inr pe"
    "extract_play_constants play home_id = Inr c" "py_iter pe = Inr evs"
    by blast
  with assms have "process_events env c evs data = (r, data')"
    by (simp add: process_play_def)
  from process_events_rows [OF this] p show ?thesis
    by (simp add: play_rows_def play_events_def)
next
  case False
  with assms have "r \<noteq> None \<and> data' = data"
    by (auto simp: process_play_def split: sum.splits)
  then show ?thesis by auto
qed

lemma process_plays_rows:
  "process_plays env home_id plays data = (r, data') \<Longrightarrow>
     \<exists>done rest. data' = data @ done
       \<and> concat (map (play_rows env home_id) plays) = done @ rest
       \<and> (r = None \<longrightarrow> rest = [])"
proof (induction plays arbitrary: data)
  case Nil
  then show ?case by simp
next
  case (Cons play plays)
  obtain r1 d1 where s: "process_play env home_id play data = (r1, d1)"
    by (cases "process_play env home_id play data")
  from process_play_rows [OF s] obtain dn1 rest1 where
    one: "d1 = data @ dn1" "play_rows env home_id play = dn1 @ rest1" "r1 = None \<longrightarrow> rest1 = []"
    by blast
  show ?case
  proof (cases r1)
    case (Some e)
    with Cons.prems s have "r = Some e" "data' = d1" by simp_all
    with one show ?thesis by auto
  next
    case None
    with Cons.prems s have "process_plays env home_id plays d1 = (r, data')" by simp
    from Cons.IH [OF this] obtain dn rest where
      "data' = d1 @ dn" "concat (map (play_rows env home_id) plays) = dn @ rest"
      "r = None \<longrightarrow> rest = []" by blast
    with one None show ?thesis by auto
  qed
qed

text \<open>
  Claim C1, as amended. Whatever happens while a parsed game document is processed, the
  records appended to \<open>data\<close> are, in order, an initial part of the records of the
  qualifying events (in-play flag truthy, both coordinates present and not null): no
  record comes from an event whose in-play flag is falsy or whose x or y coordinate
  is null or missing. When the processing raises no exception, the appended records
  are exactly the records of the qualifying events, one each.
\<close>

theorem hit_records_iff_qualifying:
  assumes "process_game_doc env game_data data = (r, data')"
  shows "(\<exists>done rest. data' = data @ done \<and> expected_rows env game_data = done @ rest)
       \<and> (r = None \<longrightarrow> data' = data @ expected_rows env game_data)"
proof (cases "\<exists>all_plays pbi home_id plays.
      py_get game_data ''allplays'' (JList []) = Inr all_plays
      \<and> py_get game_data ''playsbyinning'' (JList []) = Inr pbi
      \<and> truthy all_plays
      \<and> extract_home_team_id pbi = Inr home_id \<and> py_iter all_plays = Inr plays")
  case True
  then obtain all_plays pbi home_id plays where
    p: "py_get game_data ''allplays'' (JList []) = Inr all_plays"
    "py_get game_data ''playsbyinning'' (JList []) = Inr pbi"
    "truthy all_plays"
    "extract_home_team_id pbi = Inr home_id" "py_iter all_plays = Inr plays"
    by blast
  with assms have "process_plays env home_id plays data = (r, data')"
    by (simp add: process_game_doc_def)
  from process_plays_rows [OF this] p show ?thesis
    by (auto simp: expected_rows_def doc_plays_def doc_home_id_def)
next
  case False
  have falsy: "expected_rows env game_data = []"
    if "py_get game_data ''allplays'' (JList []) = Inr all_plays" "\<not> truthy all_plays"
    for all_plays
    using that by (cases all_plays) (auto simp: expected_rows_def doc_plays_def)
  from False assms have "data' = data \<and> (r = None \<longrightarrow> expected_rows env game_data = [])"
    by (auto simp: process_game_doc_def falsy split: sum.splits if_splits)
  then show ?thesis by auto
qed

section \<open>Proofs: the home team identifier\<close>

lemma find_append_case:
  "List.find P (xs @ ys) = (case List.find P xs of None \<Rightarrow> List.find P ys | Some x \<Rightarrow> Some x)"
  by (induction xs) auto

lemma scan_home_hits_find:
  "scan_home_hits teams = Inr res \<Longrightarrow> List.find (\<lambda>i. i \<noteq> JNull) (map team_id teams) = res"
proof (induction teams)
  case Nil
  then show ?case by simp
next
  case (Cons team teams)
  then show ?case
    by (auto simp: team_id_def split: sum.splits if_splits dest: py_get2_field)
qed

lemma scan_home_hits_found: "scan_home_hits teams = Inr (Some h) \<Longrightarrow> h \<noteq> JNull"
  by (induction teams) (auto split: sum.splits if_splits)

lemma iter_items:
  assumes "py_iter obj = Inr xs" "xs \<noteq> [] \<Longrightarrow> \<exists>d. hd xs = JDict d"
  shows "xs = items obj"
proof (cases obj)
  case (JStr s)
  with assms show ?thesis by (cases s) auto
next
  case (JDict d)
  with assms show ?thesis by (cases d) auto
qed (use assms in auto)

lemma scan_home_hits_head: "scan_home_hits teams = Inr res \<Longrightarrow> teams \<noteq> [] \<Longrightarrow> \<exists>d. hd teams = JDict d"
  by (cases teams) (auto simp: py_get2_def py_get_Inr_iff split: sum.splits)

lemma scan_innings_head: "scan_innings innings = Inr res \<Longrightarrow> innings \<noteq> [] \<Longrightarrow> \<exists>d. hd innings = JDict d"
  by (cases innings) (auto simp: py_get_Inr_iff split: sum.splits)

lemma py_get_list_items:
  "py_get obj k (JList []) = Inr v \<Longrightarrow> items v = items (field obj k)"
  by (auto simp: py_get_Inr_iff split: option.splits)

lemma scan_innings_find:
  "scan_innings innings = Inr h \<Longrightarrow>
     (case List.find (\<lambda>i. i \<noteq> JNull) (concat (map inning_home_ids innings)) of
        None \<Rightarrow> JNull | Some i \<Rightarrow> i) = h"
proof (induction innings)
  case Nil
  then show ?case by simp
next
  case (Cons inning innings)
  from Cons.prems obtain hits home_team_hits teams res where
    g: "py_get inning ''hits'' (JDict []) = Inr hits"
       "py_get hits ''home'' (JList []) = Inr home_team_hits"
       "py_iter home_team_hits = Inr teams"
       "scan_home_hits teams = Inr res"
    by (auto split: sum.splits)
  have "teams = items home_team_hits"
    using iter_items [OF g(3)] scan_home_hits_head [OF g(4)] by blast
  also have "\<dots> = items (field hits ''home'')"
    using py_get_list_items [OF g(2)] .
  also have "field hits ''home'' = field (field inning ''hits'') ''home''"
    using py_get_empty_field [OF g(1)] .
  finally have ids: "inning_home_ids inning = map team_id teams"
    by (simp add: inning_home_ids_def)
  have f: "List.find (\<lambda>i. i \<noteq> JNull) (inning_home_ids inning) = res"
    unfolding ids using scan_home_hits_find [OF g(4)] .
  show ?case
  proof (cases res)
    case None
    with Cons.prems g have "scan_innings innings = Inr h" by simp
    from Cons.IH [OF this] f None show ?thesis
      by (simp add: find_append_case)
  next
    case (Some i)
    with Cons.prems g have "h = i" by simp
    with f Some show ?thesis by (simp add: find_append_case)
  qed
qed

lemma extract_home_team_id_first:
  assumes "extract_home_team_id playsbyinning = Inr h"
  shows "h = first_home_id playsbyinning"
proof -
  from assms obtain innings where
    i: "py_iter playsbyinning = Inr innings" "scan_innings innings = Inr h"
    by (auto simp: extract_home_team_id_def split: sum.splits)
  have "innings = items playsbyinning"
    using iter_items [OF i(1)] scan_innings_head [OF i(2)] by blast
  with scan_innings_find [OF i(2)] show ?thesis
    by (simp add: first_home_id_def)
qed

lemma map_of_dict_set:
  "map_of (dict_set d k v) k' = (if k' = k then Some v else map_of d k')"
  by (induction d) auto

lemma map_of_dict_merge_other:
  "k \<notin> fst ` set b \<Longrightarrow> map_of (dict_merge a b) k = map_of a k"
  unfolding dict_merge_def
  by (induction b arbitrary: a) (auto simp: map_of_dict_set)

lemma build_dict_Cons_iff:
  "build_dict ((k, r) # rest) = Inr d \<longleftrightarrow>
     (\<exists>v d'. r = Inr v \<and> build_dict rest = Inr d' \<and> d = (k, v) # d')"
  by (cases r) (auto split: sum.splits)

lemma build_dict_keys: "build_dict es = Inr d \<Longrightarrow> map fst d = map fst es"
proof (induction es arbitrary: d)
  case Nil
  then show ?case by simp
next
  case (Cons e es)
  then show ?case by (cases e) (auto simp: build_dict_Cons_iff)
qed

lemma build_dict_map_of:
  "build_dict es = Inr d \<Longrightarrow> map_of es k = Some (Inr v) \<Longrightarrow> map_of d k = Some v"
proof (induction es arbitrary: d)
  case Nil
  then show ?case by simp
next
  case (Cons e es)
  then show ?case by (cases e) (auto simp: build_dict_Cons_iff split: if_splits)
qed

lemma constants_home_team:
  assumes "extract_play_constants play h = Inr c"
  shows "map_of c ''home_team'' = Some h"
proof -
  from assms obtain es where
    b: "build_dict es = Inr c" and m: "map_of es ''home_team'' = Some (Inr h)"
    unfolding extract_play_constants_def
    by (auto split: sum.splits)
  from build_dict_map_of [OF b m] show ?thesis .
qed

lemma hit_data_no_home_team:
  assumes "extract_hit_data env ev = Inr (Some hit_data)"
  shows "''home_team'' \<notin> fst ` set hit_data"
proof -
  from assms obtain es where
    b: "build_dict es = Inr hit_data" and m: "''home_team'' \<notin> set (map fst es)"
    unfolding extract_hit_data_def
    by (auto split: sum.splits if_splits)
  from build_dict_keys [OF b] m show ?thesis
    by (metis list.set_map)
qed

lemma process_event_home:
  assumes "process_event env c ev data = (r, data')" "map_of c ''home_team'' = Some h"
  shows "\<exists>new. data' = data @ new \<and> (\<forall>row\<in>set new. map_of row ''home_team'' = Some h)"
  using assms
  by (auto simp: process_event_def map_of_dict_merge_other hit_data_no_home_team
      split: sum.splits if_splits option.splits)

lemma process_events_home:
  "process_events env c evs data = (r, data') \<Longrightarrow> map_of c ''home_team'' = Some h \<Longrightarrow>
     \<exists>new. data' = data @ new \<and> (\<forall>row\<in>set new. map_of row ''home_team'' = Some h)"
proof (induction evs arbitrary: data)
  case Nil
  then show ?case by simp
next
  case (Cons ev evs)
  obtain r1 d1 where s: "process_event env c ev data = (r1, d1)"
    by (cases "process_event env c ev data")
  from process_event_home [OF s Cons.prems(2)] obtain new1 where
    n1: "d1 = data @ new1" "\<forall>row\<in>set new1. map_of row ''home_team'' = Some h" by blast
  show ?case
  proof (cases r1)
    case (Some e)
    with Cons.prems s n1 show ?thesis by auto
  next
    case None
    with Cons.prems s have "process_events env c evs d1 = (r, data')" by simp
    from Cons.IH [OF this Cons.prems(2)] n1 show ?thesis by auto
  qed
qed

lemma process_play_home:
  assumes "process_play env h play data = (r, data')"
  shows "\<exists>new. data' = data @ new \<and> (\<forall>row\<in>set new. map_of row ''home_team'' = Some h)"
proof (cases "\<exists>pe c evs. py_get play ''playevents'' (JList []) = Inr pe
      \<and> extract_play_constants play h = Inr c \<and> py_iter pe = Inr evs")
  case True
  then obtain pe c evs where
    p: "py_get play ''playevents'' (JList []) = Inr pe"
    "extract_play_constants play h = Inr c" "py_iter pe = Inr evs"
    by blast
  with assms have "process_events env c evs data = (r, data')"
    by (simp add: process_play_def)
  from process_events_home [OF this constants_home_team [OF p(2)]] show ?thesis .
next
  case False
  with assms have "data' = data"
    by (auto simp: process_play_def split: sum.splits)
  then show ?thesis by simp
qed

lemma process_plays_home:
  "process_plays env h plays data = (r, data') \<Longrightarrow>
     \<exists>new. data' = data @ new \<and> (\<forall>row\<in>set new. map_of row ''home_team'' = Some h)"
proof (induction plays arbitrary: data)
  case Nil
  then show ?case by simp
next
  case (Cons play plays)
  obtain r1 d1 where s: "process_play env h play data = (r1, d1)"
    by (cases "process_play env h play data")
  from process_play_home [OF s] obtain new1 where
    n1: "d1 = data @ new1" "\<forall>row\<in>set new1. map_of row ''home_team'' = Some h" by blast
  show ?case
  proof (cases r1)
    case (Some e)
    with Cons.prems s n1 show ?thesis by auto
  next
    case None
    with Cons.prems s have "process_plays env h plays d1 = (r, data')" by simp
    from Cons.IH [OF this] n1 show ?thesis by auto
  qed
qed

lemma process_game_doc_home:
  assumes "process_game_doc env game_data data = (r, data')"
  shows "\<exists>new. data' = data @ new
       \<and> (\<forall>row\<in>set new. map_of row ''home_team'' = Some (first_home_id (field game_data ''playsbyinning'')))"
proof (cases "\<exists>all_plays pbi home_id plays.
      py_get game_data ''allplays'' (JList []) = Inr all_plays
      \<and> py_get game_data ''playsbyinning'' (JList []) = Inr pbi
      \<and> truthy all_plays
      \<and> extract_home_team_id pbi = Inr home_id \<and> py_iter all_plays = Inr plays")
  case True
  then obtain all_plays pbi home_id plays where
    p: "py_get game_data ''allplays'' (JList []) = Inr all_plays"
    "py_get game_data ''playsbyinning'' (JList []) = Inr pbi"
    "truthy all_plays"
    "extract_home_team_id pbi = Inr home_id" "py_iter all_plays = Inr plays"
    by blast
  with assms have run: "process_plays env home_id plays data = (r, data')"
    by (simp add: process_game_doc_def)
  have "first_home_id pbi = first_home_id (field game_data ''playsbyinning'')"
    using py_get_list_items [OF p(2)] by (simp add: first_home_id_def)
  with extract_home_team_id_first [OF p(4)] process_plays_home [OF run] show ?thesis
    by simp
next
  case False
  with assms have "data' = data"
    by (auto simp: process_game_doc_def split: sum.splits if_splits)
  then show ?thesis by simp
qed

lemma member_ok_get:
  assumes "member_ok P obj k" "P dflt"
  shows "\<exists>v. py_get obj k dflt = Inr v \<and> P v"
  using assms by (cases obj) (auto simp: member_ok_def split: option.splits)

lemma is_dict_get: "is_dict obj \<Longrightarrow> \<exists>v. py_get obj k dflt = Inr v"
  by (cases obj) auto

lemma well_shaped_team_id:
  assumes "well_shaped_team team"
  shows "\<exists>i. py_get2 team ''team'' ''id'' = Inr i"
proof -
  from assms have "member_ok is_dict team ''team''" by (simp add: well_shaped_team_def)
  from member_ok_get [OF this, of "JDict []"] obtain t where
    "py_get team ''team'' (JDict []) = Inr t" "is_dict t" by auto
  with is_dict_get [of t "''id''" JNull] show ?thesis
    by (auto simp: py_get2_def)
qed

lemma scan_home_hits_total:
  "list_all well_shaped_team teams \<Longrightarrow> \<exists>res. scan_home_hits teams = Inr res"
proof (induction teams)
  case Nil
  then show ?case by simp
next
  case (Cons team teams)
  then obtain i where "py_get2 team ''team'' ''id'' = Inr i"
    using well_shaped_team_id by auto
  with Cons show ?case by auto
qed

lemma scan_innings_total:
  "list_all well_shaped_inning innings \<Longrightarrow> \<exists>h. scan_innings innings = Inr h"
proof (induction innings)
  case Nil
  then show ?case by simp
next
  case (Cons inning innings)
  then obtain h where rest: "scan_innings innings = Inr h" by auto
  from Cons.prems have
    "member_ok (\<lambda>hits. member_ok well_shaped_home hits ''home'') inning ''hits''"
    by (simp add: well_shaped_inning_def)
  from member_ok_get [OF this, of "JDict []"] obtain hits where
    g1: "py_get inning ''hits'' (JDict []) = Inr hits" "member_ok well_shaped_home hits ''home''"
    by (auto simp: member_ok_def)
  from member_ok_get [OF g1(2), of "JList []"] obtain home where
    g2: "py_get hits ''home'' (JList []) = Inr home" "well_shaped_home home"
    by (auto simp: well_shaped_home_def)
  from g2(2) obtain teams where
    g3: "py_iter home = Inr teams" "list_all well_shaped_team teams"
    by (cases home) (auto simp: well_shaped_home_def)
  from scan_home_hits_total [OF g3(2)] obtain res where "scan_home_hits teams = Inr res" ..
  with g1 g2 g3 rest show ?case by (cases res) auto
qed

lemma extract_home_team_id_total:
  assumes "well_shaped_breakdown playsbyinning"
  shows "extract_home_team_id playsbyinning = Inr (first_home_id playsbyinning)"
proof -
  from assms obtain innings where
    "playsbyinning = JList innings" "list_all well_shaped_inning innings"
    by (auto simp: well_shaped_breakdown_def split: json.splits)
  with scan_innings_total obtain h where "extract_home_team_id playsbyinning = Inr h"
    by (auto simp: extract_home_team_id_def)
  with extract_home_team_id_first show ?thesis by simp
qed

section \<open>The event extractor on example documents\<close>

lemmas extractor_defs =
  process_game_doc_def process_play_def process_event_def extract_play_constants_def
  extract_hit_data_def extract_home_team_id_def py_get2_def dict_merge_def
  spray_angle_of_def hit_distance_of_def HOME_TEAM_COORD_X_def HOME_TEAM_COORD_Y_def

lemmas expected_defs =
  expected_rows_def doc_plays_def doc_home_id_def play_rows_def play_events_def event_row_def
  qualifies_def in_play_def coordinate_def

lemmas example_defs =
  stub_env_def play_event_def null_hitdata_event_def one_play_doc_def three_event_doc_def
  aborted_doc_def

text \<open>
  A document with one play of three events: not in play, in play without an x
  coordinate, in play with both coordinates. Exactly the third yields a record.
\<close>

theorem hit_records_iff_qualifying_witness:
  "process_game_doc stub_env three_event_doc [] = (None, expected_rows stub_env three_event_doc)
   \<and> length (expected_rows stub_env three_event_doc) = 1
   \<and> doc_plays three_event_doc =
       [JDict [(''playevents'', JList
          [play_event (JBool False) (JInt 150) (JInt 175),
           play_event (JBool True) JNull (JInt 175),
           play_event (JBool True) (JInt 125) (JInt 99)])]]
   \<and> \<not> qualifies (play_event (JBool False) (JInt 150) (JInt 175))
   \<and> \<not> qualifies (play_event (JBool True) JNull (JInt 175))
   \<and> qualifies (play_event (JBool True) (JInt 125) (JInt 99))"
proof -
  obtain d where run: "process_game_doc stub_env three_event_doc [] = (None, d)"
    by (simp add: extractor_defs example_defs)
  from hit_records_iff_qualifying [OF run]
  have "d = expected_rows stub_env three_event_doc" by simp
  with run show ?thesis
    by (simp add: expected_defs example_defs)
qed

text \<open>
  Claim C1 as stated fails: the second event of this document is in play and has both
  coordinates, yet no record is emitted for it, because the first event holds
  \<^verbatim>\<open>"hitdata": null\<close>, on which \<^verbatim>\<open>hitdata.get\<close> raises \<^verbatim>\<open>AttributeError\<close> and ends
  the processing of the file.
\<close>

theorem hit_record_lost_after_abort:
  "process_game_doc stub_env aborted_doc [] = (Some AttributeError, [])
   \<and> doc_plays aborted_doc =
       [JDict [(''playevents'', JList
          [null_hitdata_event, play_event (JBool True) (JInt 150) (JInt 175)])]]
   \<and> qualifies (play_event (JBool True) (JInt 150) (JInt 175))"
  by (simp add: extractor_defs expected_defs example_defs)

section \<open>Proofs: spray angle and hit distance\<close>

lemma sqrt_sum_squares_pos:
  fixes a b :: real
  assumes "0 < b"
  shows "sqrt (a\<^sup>2 + b\<^sup>2) = b * sqrt (1 + (a / b)\<^sup>2)"
proof -
  have "a\<^sup>2 + b\<^sup>2 = b\<^sup>2 * (1 + (a / b)\<^sup>2)"
    using assms by (simp add: field_simps power2_eq_square)
  then show ?thesis using assms by (simp add: real_sqrt_mult)
qed

lemma sqrt_sum_squares_neg:
  fixes a b :: real
  assumes "b < 0"
  shows "sqrt (a\<^sup>2 + b\<^sup>2) = - b * sqrt (1 + (a / b)\<^sup>2)"
proof -
  have "a\<^sup>2 + b\<^sup>2 = b\<^sup>2 * (1 + (a / b)\<^sup>2)"
    using assms by (simp add: field_simps power2_eq_square)
  then show ?thesis using assms by (simp add: real_sqrt_mult)
qed

lemma sqrt_one_plus_square_pos: "0 < sqrt (1 + (t::real)\<^sup>2)"
  by (simp add: add_pos_nonneg)

lemma arctan2_polar:
  "sqrt (a\<^sup>2 + b\<^sup>2) * sin (arctan2 a b) = a
   \<and> sqrt (a\<^sup>2 + b\<^sup>2) * cos (arctan2 a b) = b"
proof -
  let ?t = "a / b"
  have s: "sqrt (1 + ?t\<^sup>2) \<noteq> 0" using sqrt_one_plus_square_pos [of ?t] by simp
  consider (pos) "0 < b" | (neg) "b < 0" | (zero) "b = 0" by linarith
  then show ?thesis
  proof cases
    case pos
    then show ?thesis
      using s by (simp add: arctan2_def sqrt_sum_squares_pos sin_arctan cos_arctan)
  next
    case neg
    then show ?thesis
      using s by (simp add: arctan2_def sqrt_sum_squares_neg sin_arctan cos_arctan)
  next
    case zero
    then show ?thesis by (simp add: arctan2_def)
  qed
qed

lemma arctan2_range: "- pi < arctan2 a b \<and> arctan2 a b \<le> pi"
proof -
  have lo: "- (pi / 2) < arctan (a / b)" and hi: "arctan (a / b) < pi / 2"
    by (rule arctan_lbound, rule arctan_ubound)
  have nonpos: "arctan (a / b) \<le> 0" if "b < 0" "0 \<le> a"
    using that by (simp add: divide_nonneg_neg arctan_le_zero_iff)
  have pos: "0 < arctan (a / b)" if "b < 0" "a < 0"
    using that by (simp add: divide_neg_neg zero_less_arctan_iff)
  show ?thesis
    using lo hi nonpos pos pi_gt_zero by (auto simp: arctan2_def)
qed

lemma map_of_dict_merge_distinct:
  "distinct (map fst b) \<Longrightarrow>
     map_of (dict_merge a b) k = (case map_of b k of Some v \<Rightarrow> Some v | None \<Rightarrow> map_of a k)"
proof (induction b arbitrary: a)
  case Nil
  then show ?case by (simp add: dict_merge_def)
next
  case (Cons kv rest)
  obtain k1 v1 where kv: "kv = (k1, v1)" by (cases kv)
  from Cons.prems kv have d: "distinct (map fst rest)" and n: "map_of rest k1 = None"
    by (auto simp: map_of_eq_None_iff)
  have step: "dict_merge a (kv # rest) = dict_merge (dict_set a k1 v1) rest"
    by (simp add: dict_merge_def kv)
  show ?case
  proof (cases "k = k1")
    case True
    with Cons.IH [OF d, of "dict_set a k1 v1"] n show ?thesis
      unfolding step by (simp add: kv map_of_dict_set)
  next
    case False
    with Cons.IH [OF d, of "dict_set a k1 v1"] show ?thesis
      unfolding step by (simp add: kv map_of_dict_set split: option.splits)
  qed
qed

lemma extract_hit_data_geometry:
  assumes "extract_hit_data env event = Inr (Some hit_data)"
  shows "\<exists>fx fy. py_float env (coordinate event ''coordx'') = Inr fx
       \<and> py_float env (coordinate event ''coordy'') = Inr fy
       \<and> distinct (map fst hit_data)
       \<and> map_of hit_data ''hit_location_x'' = Some (coordinate event ''coordx'')
       \<and> map_of hit_data ''hit_location_y'' = Some (coordinate event ''coordy'')
       \<and> map_of hit_data ''spray_angle'' = Some (JFloat (spray_angle_of fx fy))
       \<and> map_of hit_data ''hit_distance'' = Some (JFloat (hit_distance_of fx fy))"
proof -
  from assms obtain hitdata coordinates coordx coordy where
    h: "py_get event ''hitdata'' (JDict []) = Inr hitdata"
    and c: "py_get hitdata ''coordinates'' (JDict []) = Inr coordinates"
    and x: "py_get coordinates ''coordx'' JNull = Inr coordx"
    and y: "py_get coordinates ''coordy'' JNull = Inr coordy"
    unfolding extract_hit_data_def by (auto split: sum.splits)
  have cx: "coordinate event ''coordx'' = coordx" and cy: "coordinate event ''coordy'' = coordy"
    unfolding coordinate_def
    using py_get_empty_field [OF h, of "''coordinates''"] py_get_empty_field [OF c]
      py_get_null_field [OF x] py_get_null_field [OF y]
    by simp_all
  from assms obtain fx fy es where
    f: "py_float env coordx = Inr fx" "py_float env coordy = Inr fy"
    and b: "build_dict es = Inr hit_data"
    and k: "distinct (map fst es)"
    and m: "map_of es ''hit_location_x'' = Some (Inr coordx)"
       "map_of es ''hit_location_y'' = Some (Inr coordy)"
       "map_of es ''spray_angle'' = Some (Inr (JFloat (spray_angle_of fx fy)))"
       "map_of es ''hit_distance'' = Some (Inr (JFloat (hit_distance_of fx fy)))"
    unfolding extract_hit_data_def
    by (auto simp: h c x y split: sum.splits if_splits)
  from build_dict_keys [OF b] k have "distinct (map fst hit_data)" by simp
  with f m build_dict_map_of [OF b] show ?thesis
    unfolding cx cy by blast
qed

text \<open>
  Claim C2. In every Hit Event Record, the spray angle is \<open>arctan2 (x - 125) (y - 199)\<close>
  in degrees and the hit distance is \<open>sqrt ((x - 125)\<^sup>2 + (y - 199)\<^sup>2)\<close>, for the
  coordinates \<open>x\<close> and \<open>y\<close> of the record coerced to numbers; the angle is the polar
  angle of the hit measured from the vertical axis. At the reference point the
  distance and the angle are 0; at (125, 99) the angle is 180 degrees and the distance
  is 100.
\<close>

theorem spray_angle_and_distance:
  assumes "extract_hit_data env event = Inr (Some hit_data)"
  shows "(\<exists>x y. py_float env (coordinate event ''coordx'') = Inr x
          \<and> py_float env (coordinate event ''coordy'') = Inr y
          \<and> map_of (dict_merge constants hit_data) ''hit_location_x''
              = Some (coordinate event ''coordx'')
          \<and> map_of (dict_merge constants hit_data) ''hit_location_y''
              = Some (coordinate event ''coordy'')
          \<and> map_of (dict_merge constants hit_data) ''spray_angle''
              = Some (JFloat (degrees (arctan2 (x - 125) (y - 199))))
          \<and> map_of (dict_merge constants hit_data) ''hit_distance''
              = Some (JFloat (sqrt ((x - 125)\<^sup>2 + (y - 199)\<^sup>2)))
          \<and> sqrt ((x - 125)\<^sup>2 + (y - 199)\<^sup>2) * sin (arctan2 (x - 125) (y - 199)) = x - 125
          \<and> sqrt ((x - 125)\<^sup>2 + (y - 199)\<^sup>2) * cos (arctan2 (x - 125) (y - 199)) = y - 199)
       \<and> spray_angle_of 125 199 = 0 \<and> hit_distance_of 125 199 = 0
       \<and> spray_angle_of 125 99 = 180 \<and> hit_distance_of 125 99 = 100"
proof -
  from extract_hit_data_geometry [OF assms] obtain x y where
    g: "py_float env (coordinate event ''coordx'') = Inr x"
       "py_float env (coordinate event ''coordy'') = Inr y"
       "distinct (map fst hit_data)"
       "map_of hit_data ''hit_location_x'' = Some (coordinate event ''coordx'')"
       "map_of hit_data ''hit_location_y'' = Some (coordinate event ''coordy'')"
       "map_of hit_data ''spray_angle'' = Some (JFloat (spray_angle_of x y))"
       "map_of hit_data ''hit_distance'' = Some (JFloat (hit_distance_of x y))"
    by blast
  have formulas: "spray_angle_of x y = degrees (arctan2 (x - 125) (y - 199))"
    "hit_distance_of x y = sqrt ((x - 125)\<^sup>2 + (y - 199)\<^sup>2)"
    by (simp_all add: spray_angle_of_def hit_distance_of_def HOME_TEAM_COORD_X_def
        HOME_TEAM_COORD_Y_def)
  have points: "spray_angle_of 125 199 = 0" "hit_distance_of 125 199 = 0"
    "spray_angle_of 125 99 = 180" "hit_distance_of 125 99 = 100"
    by (simp_all add: spray_angle_of_def hit_distance_of_def HOME_TEAM_COORD_X_def
        HOME_TEAM_COORD_Y_def arctan2_def degrees_def)
  from g formulas arctan2_polar [of "x - 125" "y - 199"] points show ?thesis
    by (auto simp: map_of_dict_merge_distinct)
qed

theorem spray_angle_and_distance_witness:
  "(\<exists>hit_data. extract_hit_data stub_env (play_event (JBool True) (JInt 125) (JInt 99))
        = Inr (Some hit_data)
      \<and> map_of (dict_merge [(''inning'', JInt 1)] hit_data) ''spray_angle'' = Some (JFloat 180)
      \<and> map_of (dict_merge [(''inning'', JInt 1)] hit_data) ''hit_distance'' = Some (JFloat 100)
      \<and> map_of (dict_merge [(''inning'', JInt 1)] hit_data) ''hit_location_x'' = Some (JInt 125)
      \<and> map_of (dict_merge [(''inning'', JInt 1)] hit_data) ''hit_location_y'' = Some (JInt 99))
   \<and> py_float stub_env (JInt 125) = Inr 125 \<and> py_float stub_env (JInt 99) = Inr 99"
proof -
  obtain hit_data where
    h: "extract_hit_data stub_env (play_event (JBool True) (JInt 125) (JInt 99)) = Inr (Some hit_data)"
    by (simp add: extractor_defs example_defs)
  have c: "coordinate (play_event (JBool True) (JInt 125) (JInt 99)) ''coordx'' = JInt 125"
    "coordinate (play_event (JBool True) (JInt 125) (JInt 99)) ''coordy'' = JInt 99"
    by (simp_all add: coordinate_def play_event_def)
  from spray_angle_and_distance [OF h, of "[(''inning'', JInt 1)]"] h c show ?thesis
    by (auto simp: arctan2_def degrees_def)
qed

section \<open>Proofs: the object-to-mapping conversion\<close>

lemma to_dict_converted: "converted (to_dict v)"
  by (induction v rule: to_dict.induct) (auto simp: list_all_iff)

lemma converted_to_dict_id: "converted v \<Longrightarrow> to_dict v = v"
  by (induction v rule: to_dict.induct) (auto simp: list_all_iff map_idI)

lemma is_plain_converted: "is_plain v \<Longrightarrow> converted v"
  by (induction v rule: converted.induct) (auto simp: list_all_iff)

text \<open>
  Claim C10. \<^verbatim>\<open>_to_dict\<close> is idempotent, and it is the identity on a value made of
  plain dictionaries, lists and primitives only.
\<close>

theorem to_dict_idempotent:
  "to_dict (to_dict v) = to_dict v \<and> (is_plain v \<longrightarrow> to_dict v = v)"
  using converted_to_dict_id [OF to_dict_converted] converted_to_dict_id [OF is_plain_converted]
  by blast

theorem to_dict_idempotent_witness:
  "is_plain (to_dict sample_object)
   \<and> to_dict (to_dict sample_object) = to_dict sample_object
   \<and> to_dict sample_object =
       PDict [(Atom (AStr ''gamepk''), Atom (AInt 745444)),
              (Atom (AStr ''allplays''),
               PList [PDict [(Atom (AStr ''about''),
                              PDict [(Atom (AStr ''inning''), Atom (AInt 1))])]])]"
  using to_dict_idempotent [of "to_dict sample_object"] to_dict_idempotent [of sample_object]
  by (simp add: sample_object_def startswith_underscore_def)

section \<open>Proofs: cache validity\<close>

lemmas fetch_defs =
  process_games_def process_row_def fetch_and_save_def get_season_dir_def
  save_game_pbp_def fetch_game_pbp_def is_valid_cache_def should_skip_def
  game_file_path_def string_of_int_def digits.simps digit_char_def log_warning_def
  start_state_def MIN_VALID_FILE_SIZE_def get_mlb_pbp_data_def load_and_validate_schedule_def
  dropna_subset_def REQUIRED_SCHEDULE_COLUMNS_def Let_def

lemmas fetch_example_defs =
  empty_disk_def stub_world_def api_up_def api_down_def sample_row_def sample_columns_def



text \<open>
  The existence check stands outside the \<^verbatim>\<open>try\<close> of \<^verbatim>\<open>_is_valid_cache\<close>: on a path where
  \<^verbatim>\<open>Path.exists()\<close> raises, the check raises too instead of returning false, and the
  fetch loop logs a warning for the game without calling the API.
\<close>

lemma exists_error_leaves_validity_check:
  "is_valid_cache (fs(p := Unreachable)) p = Inl OSError"
  by (simp add: is_valid_cache_def)

lemma exists_error_is_per_game_warning:
  "warnings (process_games (stub_world api_up Saved 3000) ''MLB_CACHE'' False (1 / 10)
      (empty_disk(''MLB_CACHE/2024/GAMEPK_745444_NYY_VS_BOS.json'' := Unreachable))
      [sample_row]) = [OSError]
   \<and> api_calls (process_games (stub_world api_up Saved 3000) ''MLB_CACHE'' False (1 / 10)
      (empty_disk(''MLB_CACHE/2024/GAMEPK_745444_NYY_VS_BOS.json'' := Unreachable))
      [sample_row]) = []
   \<and> cached_count (process_games (stub_world api_up Saved 3000) ''MLB_CACHE'' False (1 / 10)
      (empty_disk(''MLB_CACHE/2024/GAMEPK_745444_NYY_VS_BOS.json'' := Unreachable))
      [sample_row]) = 0
   \<and> skipped_count (process_games (stub_world api_up Saved 3000) ''MLB_CACHE'' False (1 / 10)
      (empty_disk(''MLB_CACHE/2024/GAMEPK_745444_NYY_VS_BOS.json'' := Unreachable))
      [sample_row]) = 0"
  by (simp add: fetch_defs fetch_example_defs)

section \<open>Proofs: the home team identifier of the records, and the empty compilation\<close>

lemmas breakdown_defs =
  breakdown_with_id_def breakdown_without_id_def breakdown_null_team_def
  first_home_id_def inning_home_ids_def team_id_def
  well_shaped_breakdown_def well_shaped_inning_def well_shaped_home_def well_shaped_team_def
  member_ok_def

text \<open>
  Claim C9, as amended. Every record a game document yields carries, as its home team
  identifier, the first non-null team identifier found under the "home" key while the
  per-inning hit breakdown is scanned in order, and null when there is none. When the
  breakdown is well shaped (a list of mappings whose "hits", "home" and "team"
  members, where present, are a mapping, a list of mappings and a mapping), the scan
  raises nothing and returns that identifier, so the absence of an identifier alone
  never fails the file.
\<close>

theorem home_team_id_first_non_null:
  "(process_game_doc env game_data data = (r, data') \<longrightarrow>
      (\<exists>new. data' = data @ new
         \<and> (\<forall>row\<in>set new.
               map_of row ''home_team'' = Some (first_home_id (field game_data ''playsbyinning'')))))
   \<and> (well_shaped_breakdown playsbyinning \<longrightarrow>
        extract_home_team_id playsbyinning = Inr (first_home_id playsbyinning))"
  using process_game_doc_home extract_home_team_id_total by blast

theorem home_team_id_first_non_null_witness:
  "first_home_id breakdown_with_id = JInt 147
   \<and> well_shaped_breakdown breakdown_with_id
   \<and> extract_home_team_id breakdown_with_id = Inr (JInt 147)
   \<and> fst (process_game_doc stub_env
        (one_play_doc [play_event (JBool True) (JInt 125) (JInt 99)] breakdown_with_id) []) = None
   \<and> map (\<lambda>row. map_of row ''home_team'')
        (snd (process_game_doc stub_env
           (one_play_doc [play_event (JBool True) (JInt 125) (JInt 99)] breakdown_with_id) []))
      = [Some (JInt 147)]
   \<and> first_home_id breakdown_without_id = JNull
   \<and> well_shaped_breakdown breakdown_without_id
   \<and> extract_home_team_id breakdown_without_id = Inr JNull
   \<and> fst (process_game_doc stub_env
        (one_play_doc [play_event (JBool True) (JInt 125) (JInt 99)] breakdown_without_id) []) = None
   \<and> map (\<lambda>row. map_of row ''home_team'')
        (snd (process_game_doc stub_env
           (one_play_doc [play_event (JBool True) (JInt 125) (JInt 99)] breakdown_without_id) []))
      = [Some JNull]"
proof -
  have a: "well_shaped_breakdown breakdown_with_id" "well_shaped_breakdown breakdown_without_id"
    by (simp_all add: breakdown_defs)
  have b: "first_home_id breakdown_with_id = JInt 147" "first_home_id breakdown_without_id = JNull"
    by (simp_all add: breakdown_defs)
  note t1 = home_team_id_first_non_null [of stub_env
      "one_play_doc [play_event (JBool True) (JInt 125) (JInt 99)] breakdown_with_id" "[]"
      "fst (process_game_doc stub_env
        (one_play_doc [play_event (JBool True) (JInt 125) (JInt 99)] breakdown_with_id) [])"
      "snd (process_game_doc stub_env
        (one_play_doc [play_event (JBool True) (JInt 125) (JInt 99)] breakdown_with_id) [])"
      breakdown_with_id]
  note t2 = home_team_id_first_non_null [of stub_env
      "one_play_doc [play_event (JBool True) (JInt 125) (JInt 99)] breakdown_without_id" "[]"
      "fst (process_game_doc stub_env
        (one_play_doc [play_event (JBool True) (JInt 125) (JInt 99)] breakdown_without_id) [])"
      "snd (process_game_doc stub_env
        (one_play_doc [play_event (JBool True) (JInt 125) (JInt 99)] breakdown_without_id) [])"
      breakdown_without_id]
  from t1 t2 a b show ?thesis
    by (simp add: extractor_defs example_defs breakdown_defs)
qed

text \<open>
  Claim C9 as stated fails: this breakdown holds no team identifier (its only home hit
  has \<^verbatim>\<open>"team": null\<close>), yet the file is not processed with a null home team: the scan
  raises \<^verbatim>\<open>AttributeError\<close> and the qualifying event of the document yields no record.
\<close>

theorem null_team_aborts_file:
  "first_home_id breakdown_null_team = JNull
   \<and> qualifies (play_event (JBool True) (JInt 125) (JInt 99))
   \<and> process_game_doc stub_env
        (one_play_doc [play_event (JBool True) (JInt 125) (JInt 99)] breakdown_null_team) []
      = (Some AttributeError, [])"
  by (simp add: extractor_defs example_defs expected_defs breakdown_defs)

text \<open>
  Claim C6. The compilation never returns an empty table; when the pass over a
  non-empty list of season files collects no record, it fails with the error
  "No hit events extracted from any files".
\<close>

theorem empty_compilation_fails:
  "compile_play_events env folder_path \<noteq> Inr []
   \<and> (json_files \<noteq> [] \<and> collect_files env json_files [] = [] \<longrightarrow>
        compile_play_events env (Directory json_files)
          = Inl (ValueError ''No hit events extracted from any files''))"
  by (auto simp: compile_play_events_def Let_def split: folder.splits)

theorem empty_compilation_fails_witness:
  "[Inr ''{}'', Inl OSError] \<noteq> ([] :: disk_file list)
   \<and> collect_files stub_env [Inr ''{}'', Inl OSError] [] = []
   \<and> compile_play_events stub_env (Directory [Inr ''{}'', Inl OSError])
       = Inl (ValueError ''No hit events extracted from any files'')"
  using empty_compilation_fails [of stub_env "Directory [Inr ''{}'', Inl OSError]" "[Inr ''{}'', Inl OSError]"]
  by (simp add: process_game_file_def MIN_FILE_SIZE_def)

section \<open>Proofs: a second fetch run\<close>

lemma process_row_skippable:
  assumes "skippable w cache_dir (files st) row" "dirs_made w cache_dir st"
  shows "files (process_row w cache_dir False d st row) = files st
       \<and> api_calls (process_row w cache_dir False d st row) = api_calls st
       \<and> cache_writes (process_row w cache_dir False d st row) = cache_writes st
       \<and> warnings (process_row w cache_dir False d st row) = warnings st
       \<and> cached_count (process_row w cache_dir False d st row) = cached_count st
       \<and> skipped_count (process_row w cache_dir False d st row) = skipped_count st + 1
       \<and> dirs_made w cache_dir (process_row w cache_dir False d st row)"
  using assms
  by (auto simp: skippable_def dirs_made_def process_row_def get_season_dir_def should_skip_def
      Let_def split: sum.splits)

lemma second_run_all_skipped:
  "\<forall>row\<in>set rows. skippable w cache_dir (files st) row \<Longrightarrow> dirs_made w cache_dir st \<Longrightarrow>
     files (foldl (process_row w cache_dir False d) st rows) = files st
     \<and> api_calls (foldl (process_row w cache_dir False d) st rows) = api_calls st
     \<and> cache_writes (foldl (process_row w cache_dir False d) st rows) = cache_writes st
     \<and> warnings (foldl (process_row w cache_dir False d) st rows) = warnings st
     \<and> cached_count (foldl (process_row w cache_dir False d) st rows) = cached_count st
     \<and> skipped_count (foldl (process_row w cache_dir False d) st rows) = skipped_count st + length rows"
proof (induction rows arbitrary: st)
  case Nil
  then show ?case by simp
next
  case (Cons row rows)
  from Cons.prems have r: "skippable w cache_dir (files st) row" by simp
  note one = process_row_skippable [OF r Cons.prems(2), of d]
  from one have f: "files (process_row w cache_dir False d st row) = files st"
    and dm: "dirs_made w cache_dir (process_row w cache_dir False d st row)" by blast+
  from Cons.prems
  have "\<forall>r\<in>set rows. skippable w cache_dir (files (process_row w cache_dir False d st row)) r"
    unfolding f by simp
  from Cons.IH [OF this dm] one show ?case by simp
qed

lemma process_row_counts:
  "cached_count st + skipped_count st
     \<le> cached_count (process_row w cache_dir force d st row)
       + skipped_count (process_row w cache_dir force d st row)
   \<and> cached_count (process_row w cache_dir force d st row)
       + skipped_count (process_row w cache_dir force d st row)
     \<le> cached_count st + skipped_count st + 1"
  by (auto simp: process_row_def fetch_and_save_def get_season_dir_def log_warning_def
      save_game_pbp_def Let_def split: sum.splits save_result.splits)

lemma process_rows_counts:
  "cached_count st + skipped_count st
     \<le> cached_count (foldl (process_row w cache_dir force d) st rows)
       + skipped_count (foldl (process_row w cache_dir force d) st rows)
   \<and> cached_count (foldl (process_row w cache_dir force d) st rows)
       + skipped_count (foldl (process_row w cache_dir force d) st rows)
     \<le> cached_count st + skipped_count st + length rows"
proof (induction rows arbitrary: st)
  case Nil
  then show ?case by simp
next
  case (Cons row rows)
  from Cons.IH [of "process_row w cache_dir force d st row"]
    process_row_counts [of st w cache_dir force d row]
  show ?case by simp
qed

lemma process_row_dirs_made:
  "dirs_made w cache_dir st \<Longrightarrow> dirs_made w cache_dir (process_row w cache_dir force d st row)"
  by (auto simp: dirs_made_def process_row_def fetch_and_save_def get_season_dir_def
      log_warning_def save_game_pbp_def Let_def split: sum.splits save_result.splits if_splits)

lemma is_valid_cache_update:
  assumes "MIN_VALID_FILE_SIZE < length bytes" "is_valid_cache fs p = Inr True"
  shows "is_valid_cache (fs(f := File bytes)) p = Inr True"
proof (cases "p = f")
  case True
  with assms(1) show ?thesis by (simp add: is_valid_cache_def)
next
  case False
  then have "(fs(f := File bytes)) p = fs p" by simp
  with assms(2) show ?thesis by (simp only: is_valid_cache_def)
qed

lemma process_row_settled:
  assumes settled: "cached_count (process_row w cache_dir force d st row)
       + skipped_count (process_row w cache_dir force d st row)
     = cached_count st + skipped_count st + 1"
    and big: "\<forall>game_id response. api_play_by_play w game_id = Inr response \<longrightarrow>
       MIN_VALID_FILE_SIZE < length (json_dump w (to_dict response))"
    and dirs: "dirs_made w cache_dir st"
  shows "skippable w cache_dir (files (process_row w cache_dir force d st row)) row
       \<and> (\<forall>p. is_valid_cache (files st) p = Inr True \<longrightarrow>
              is_valid_cache (files (process_row w cache_dir force d st row)) p = Inr True)"
proof -
  from settled obtain game_id game_year st1 where
    p: "game_pk row = Inr game_id" "date_year row = Inr game_year"
       "get_season_dir w cache_dir game_year st = Inr st1"
    by (auto simp: process_row_def log_warning_def split: sum.splits)
  let ?file = "game_file_path (cache_dir @ ''/'' @ game_year) game_id (home_team row) (away_team row)"
  from p(3) dirs have mk: "\<not> mkdir_fails w (cache_dir @ ''/'' @ game_year)"
    and f1: "files st1 = files st" "cached_count st1 = cached_count st"
      "skipped_count st1 = skipped_count st"
    by (auto simp: get_season_dir_def dirs_made_def split: if_splits)
  show ?thesis
  proof (cases "should_skip force (files st1) ?file")
    case (Inl e)
    with p settled f1 show ?thesis
      by (simp add: process_row_def log_warning_def)
  next
    case (Inr skip)
    show ?thesis
    proof (cases skip)
      case True
      with Inr have "is_valid_cache (files st1) ?file = Inr True"
        by (simp add: should_skip_def split: if_splits)
      with p f1 mk Inr True show ?thesis
        by (simp add: process_row_def skippable_def)
    next
      case False
      with p Inr have run: "process_row w cache_dir force d st row
          = fetch_and_save w d game_id ?file st1"
        by (simp add: process_row_def)
      from settled f1 obtain response where
        r: "api_play_by_play w game_id = Inr response" "save_outcome w ?file = Saved"
        unfolding run
        by (auto simp: fetch_and_save_def fetch_game_pbp_def save_game_pbp_def log_warning_def
            Let_def split: sum.splits save_result.splits)
      with big have sz: "MIN_VALID_FILE_SIZE < length (json_dump w (to_dict response))" by blast
      from r f1 have fs: "files (fetch_and_save w d game_id ?file st1)
          = (files st)(?file := File (json_dump w (to_dict response)))"
        by (simp add: fetch_and_save_def fetch_game_pbp_def save_game_pbp_def log_warning_def Let_def)
      from sz have "is_valid_cache ((files st)(?file := File (json_dump w (to_dict response)))) ?file
          = Inr True"
        by (simp add: is_valid_cache_def)
      moreover from sz have "\<forall>p. is_valid_cache (files st) p = Inr True \<longrightarrow>
          is_valid_cache ((files st)(?file := File (json_dump w (to_dict response)))) p = Inr True"
        using is_valid_cache_update by blast
      ultimately show ?thesis
        using p mk unfolding run fs by (simp add: skippable_def)
    qed
  qed
qed

lemma skippable_mono:
  "skippable w cache_dir fs row \<Longrightarrow>
     \<forall>p. is_valid_cache fs p = Inr True \<longrightarrow> is_valid_cache fs' p = Inr True \<Longrightarrow>
     skippable w cache_dir fs' row"
  by (auto simp: skippable_def split: sum.splits)

lemma first_run_settles:
  assumes big: "\<forall>game_id response. api_play_by_play w game_id = Inr response \<longrightarrow>
       MIN_VALID_FILE_SIZE < length (json_dump w (to_dict response))"
  shows "dirs_made w cache_dir st \<Longrightarrow>
     cached_count (foldl (process_row w cache_dir force d) st rows)
       + skipped_count (foldl (process_row w cache_dir force d) st rows)
     = cached_count st + skipped_count st + length rows \<Longrightarrow>
     (\<forall>row\<in>set rows. skippable w cache_dir (files (foldl (process_row w cache_dir force d) st rows)) row)
     \<and> (\<forall>p. is_valid_cache (files st) p = Inr True \<longrightarrow>
            is_valid_cache (files (foldl (process_row w cache_dir force d) st rows)) p = Inr True)"
proof (induction rows arbitrary: st)
  case Nil
  then show ?case by simp
next
  case (Cons row rows)
  let ?st' = "process_row w cache_dir force d st row"
  let ?fin = "foldl (process_row w cache_dir force d) ?st' rows"
  from Cons.prems(2) process_row_counts [of st w cache_dir force d row]
    process_rows_counts [of ?st' w cache_dir force d rows]
  have one: "cached_count ?st' + skipped_count ?st' = cached_count st + skipped_count st + 1"
    and rest: "cached_count ?fin + skipped_count ?fin
      = cached_count ?st' + skipped_count ?st' + length rows"
    by simp_all
  note s = process_row_settled [OF one big Cons.prems(1)]
  note ih = Cons.IH [OF process_row_dirs_made [OF Cons.prems(1)] rest]
  from s ih have "skippable w cache_dir (files ?fin) row"
    using skippable_mono by blast
  with s ih show ?case by simp
qed

text \<open>
  Claim C4, as amended. If the first run ended with every game of the schedule counted
  as cached or as skipped, and every document the API returns serialises to more than
  2048 bytes, then a second run over the same schedule with \<^verbatim>\<open>force_refresh=False\<close>,
  started on the files the first run left, makes no API call and no cache write,
  caches nothing, counts every game as skipped and leaves the files as they are.
\<close>

theorem second_run_skips_all:
  assumes "cached_count (process_games w cache_dir force d fs schedule)
       + skipped_count (process_games w cache_dir force d fs schedule) = length schedule"
    and "\<forall>game_id response. api_play_by_play w game_id = Inr response \<longrightarrow>
       MIN_VALID_FILE_SIZE < length (json_dump w (to_dict response))"
  shows "api_calls (process_games w cache_dir False d'
            (files (process_games w cache_dir force d fs schedule)) schedule) = []
       \<and> cache_writes (process_games w cache_dir False d'
            (files (process_games w cache_dir force d fs schedule)) schedule) = []
       \<and> cached_count (process_games w cache_dir False d'
            (files (process_games w cache_dir force d fs schedule)) schedule) = 0
       \<and> skipped_count (process_games w cache_dir False d'
            (files (process_games w cache_dir force d fs schedule)) schedule) = length schedule
       \<and> files (process_games w cache_dir False d'
            (files (process_games w cache_dir force d fs schedule)) schedule)
          = files (process_games w cache_dir force d fs schedule)"
proof -
  let ?st1 = "process_games w cache_dir force d fs schedule"
  have d0: "dirs_made w cache_dir (start_state fs')" for fs'
    by (simp add: dirs_made_def start_state_def)
  have cnt: "cached_count (foldl (process_row w cache_dir force d) (start_state fs) schedule)
       + skipped_count (foldl (process_row w cache_dir force d) (start_state fs) schedule)
     = cached_count (start_state fs) + skipped_count (start_state fs) + length schedule"
    using assms(1) by (simp add: process_games_def start_state_def)
  from first_run_settles [OF assms(2) d0 cnt]
  have "\<forall>row\<in>set schedule. skippable w cache_dir (files ?st1) row"
    by (simp add: process_games_def)
  then have "\<forall>row\<in>set schedule. skippable w cache_dir (files (start_state (files ?st1))) row"
    by (simp add: start_state_def)
  from second_run_all_skipped [OF this d0, of d'] show ?thesis
    by (simp add: process_games_def [of w cache_dir False d'] start_state_def)
qed

theorem second_run_skips_all_witness:
  "cached_count (process_games (stub_world api_up Saved 3000) ''MLB_CACHE'' False (1 / 10)
       empty_disk [sample_row, second_row, sample_row]) = 2
   \<and> skipped_count (process_games (stub_world api_up Saved 3000) ''MLB_CACHE'' False (1 / 10)
       empty_disk [sample_row, second_row, sample_row]) = 1
   \<and> api_calls (process_games (stub_world api_up Saved 3000) ''MLB_CACHE'' False (1 / 10)
       empty_disk [sample_row, second_row, sample_row]) = [745444, 745445]
   \<and> length (json_dump (stub_world api_up Saved 3000) (to_dict sample_object)) = 3000
   \<and> api_calls (process_games (stub_world api_up Saved 3000) ''MLB_CACHE'' False (1 / 10)
       (files (process_games (stub_world api_up Saved 3000) ''MLB_CACHE'' False (1 / 10)
          empty_disk [sample_row, second_row, sample_row]))
       [sample_row, second_row, sample_row]) = []
   \<and> cache_writes (process_games (stub_world api_up Saved 3000) ''MLB_CACHE'' False (1 / 10)
       (files (process_games (stub_world api_up Saved 3000) ''MLB_CACHE'' False (1 / 10)
          empty_disk [sample_row, second_row, sample_row]))
       [sample_row, second_row, sample_row]) = []
   \<and> skipped_count (process_games (stub_world api_up Saved 3000) ''MLB_CACHE'' False (1 / 10)
       (files (process_games (stub_world api_up Saved 3000) ''MLB_CACHE'' False (1 / 10)
          empty_disk [sample_row, second_row, sample_row]))
       [sample_row, second_row, sample_row]) = 3"
proof -
  have c: "cached_count (process_games (stub_world api_up Saved 3000) ''MLB_CACHE'' False (1 / 10)
       empty_disk [sample_row, second_row, sample_row]) = 2"
    and s: "skipped_count (process_games (stub_world api_up Saved 3000) ''MLB_CACHE'' False (1 / 10)
       empty_disk [sample_row, second_row, sample_row]) = 1"
    and a: "api_calls (process_games (stub_world api_up Saved 3000) ''MLB_CACHE'' False (1 / 10)
       empty_disk [sample_row, second_row, sample_row]) = [745444, 745445]"
    by (simp_all add: fetch_defs fetch_example_defs second_row_def)
  have big: "\<forall>game_id response.
      api_play_by_play (stub_world api_up Saved 3000) game_id = Inr response \<longrightarrow>
      MIN_VALID_FILE_SIZE < length (json_dump (stub_world api_up Saved 3000) (to_dict response))"
    by (simp add: stub_world_def MIN_VALID_FILE_SIZE_def)
  have n: "length (json_dump (stub_world api_up Saved 3000) (to_dict sample_object)) = 3000"
    by (simp add: stub_world_def)
  from c s have "cached_count (process_games (stub_world api_up Saved 3000) ''MLB_CACHE'' False (1 / 10)
       empty_disk [sample_row, second_row, sample_row])
     + skipped_count (process_games (stub_world api_up Saved 3000) ''MLB_CACHE'' False (1 / 10)
       empty_disk [sample_row, second_row, sample_row])
     = length [sample_row, second_row, sample_row]"
    by simp
  from second_run_skips_all [OF this big, of "1 / 10"] c s a n show ?thesis
    by simp
qed

text \<open>
  Claim C4 as stated fails: a game whose document serialises to 2 bytes is fetched and
  written by the first run, is not a valid cache file afterwards, and is fetched and
  written again by the second run, which counts no game as skipped.
\<close>

theorem small_document_fetched_again:
  "cached_count (process_games (stub_world api_up Saved 2) ''MLB_CACHE'' False (1 / 10)
       empty_disk [sample_row]) = 1
   \<and> warnings (process_games (stub_world api_up Saved 2) ''MLB_CACHE'' False (1 / 10)
       empty_disk [sample_row]) = []
   \<and> api_calls (process_games (stub_world api_up Saved 2) ''MLB_CACHE'' False (1 / 10)
       (files (process_games (stub_world api_up Saved 2) ''MLB_CACHE'' False (1 / 10)
          empty_disk [sample_row]))
       [sample_row]) = [745444]
   \<and> cache_writes (process_games (stub_world api_up Saved 2) ''MLB_CACHE'' False (1 / 10)
       (files (process_games (stub_world api_up Saved 2) ''MLB_CACHE'' False (1 / 10)
          empty_disk [sample_row]))
       [sample_row]) = [''MLB_CACHE/2024/GAMEPK_745444_NYY_VS_BOS.json'']
   \<and> skipped_count (process_games (stub_world api_up Saved 2) ''MLB_CACHE'' False (1 / 10)
       (files (process_games (stub_world api_up Saved 2) ''MLB_CACHE'' False (1 / 10)
          empty_disk [sample_row]))
       [sample_row]) = 0"
  by (simp add: fetch_defs fetch_example_defs)

section \<open>Proofs: failures of a single game\<close>

lemma process_row_api_call:
  assumes "api_calls (process_row w cache_dir force d st row) = api_calls st @ [game_id]"
  shows "\<exists>game_year st1.
      date_year row = Inr game_year
      \<and> get_season_dir w cache_dir game_year st = Inr st1
      \<and> process_row w cache_dir force d st row
          = fetch_and_save w d game_id
              (game_file_path (cache_dir @ ''/'' @ game_year) game_id (home_team row) (away_team row))
              st1"
proof -
  have same: "api_calls st1 = api_calls st" "cached_count st1 = cached_count st"
    if "get_season_dir w cache_dir y st = Inr st1" for y st1
    using that by (auto simp: get_season_dir_def split: if_splits)
  have calls: "api_calls (fetch_and_save w d i f s) = api_calls s @ [i]" for i f s
    by (auto simp: fetch_and_save_def log_warning_def Let_def
        split: sum.splits prod.splits option.splits)
  from assms same show ?thesis
    by (auto simp: process_row_def log_warning_def Let_def calls split: sum.splits if_splits)
qed

lemma get_season_dir_counts:
  "get_season_dir w cache_dir y st = Inr st1 \<Longrightarrow>
     cached_count st1 = cached_count st \<and> skipped_count st1 = skipped_count st
     \<and> warnings st1 = warnings st \<and> cache_writes st1 = cache_writes st
     \<and> api_calls st1 = api_calls st \<and> files st1 = files st"
  by (auto simp: get_season_dir_def split: if_splits)

text \<open>
  Claim C8. When a game fails because its reference is malformed, its date cannot be
  parsed, or the network call made for it fails, the loop logs one warning (the error),
  leaves both counters as they were, and goes on with the next game: the run over a
  schedule is the run over the games before, this game, then the games after.
\<close>

theorem failed_game_logged_and_skipped:
  assumes "game_pk row = Inl e
         \<or> (\<exists>game_id. game_pk row = Inr game_id \<and> date_year row = Inl e)
         \<or> (\<exists>game_id. game_pk row = Inr game_id
               \<and> api_calls (process_row w cache_dir force d st row) = api_calls st @ [game_id]
               \<and> api_play_by_play w game_id = Inl e)"
  shows "cached_count (process_row w cache_dir force d st row) = cached_count st
       \<and> skipped_count (process_row w cache_dir force d st row) = skipped_count st
       \<and> warnings (process_row w cache_dir force d st row) = warnings st @ [e]
       \<and> process_games w cache_dir force d fs (before @ row # after)
          = foldl (process_row w cache_dir force d)
              (process_row w cache_dir force d (process_games w cache_dir force d fs before) row)
              after"
proof -
  have loop: "process_games w cache_dir force d fs (before @ row # after)
      = foldl (process_row w cache_dir force d)
          (process_row w cache_dir force d (process_games w cache_dir force d fs before) row)
          after"
    by (simp add: process_games_def)
  from assms consider
    (ref) "game_pk row = Inl e"
    | (date) game_id where "game_pk row = Inr game_id" "date_year row = Inl e"
    | (net) game_id where "game_pk row = Inr game_id"
        "api_calls (process_row w cache_dir force d st row) = api_calls st @ [game_id]"
        "api_play_by_play w game_id = Inl e"
    by blast
  then have "cached_count (process_row w cache_dir force d st row) = cached_count st
       \<and> skipped_count (process_row w cache_dir force d st row) = skipped_count st
       \<and> warnings (process_row w cache_dir force d st row) = warnings st @ [e]"
  proof cases
    case ref
    then show ?thesis by (simp add: process_row_def log_warning_def)
  next
    case date
    then show ?thesis by (simp add: process_row_def log_warning_def)
  next
    case net
    from process_row_api_call [OF net(2)] obtain game_year st1 where
      y: "get_season_dir w cache_dir game_year st = Inr st1"
      and run: "process_row w cache_dir force d st row
          = fetch_and_save w d game_id
              (game_file_path (cache_dir @ ''/'' @ game_year) game_id (home_team row) (away_team row))
              st1"
      by blast
    from net(3) get_season_dir_counts [OF y] show ?thesis
      unfolding run
      by (simp add: fetch_and_save_def fetch_game_pbp_def log_warning_def Let_def)
  qed
  with loop show ?thesis by simp
qed

theorem failed_game_logged_and_skipped_witness:
  "game_pk malformed_row = Inl (ValueError ''invalid literal for int()'')
   \<and> cached_count (process_row (stub_world api_up Saved 3000) ''MLB_CACHE'' False (1 / 10)
        (start_state empty_disk) malformed_row) = 0
   \<and> skipped_count (process_row (stub_world api_up Saved 3000) ''MLB_CACHE'' False (1 / 10)
        (start_state empty_disk) malformed_row) = 0
   \<and> warnings (process_row (stub_world api_up Saved 3000) ''MLB_CACHE'' False (1 / 10)
        (start_state empty_disk) malformed_row) = [ValueError ''invalid literal for int()'']
   \<and> game_pk sample_row = Inr 745444
   \<and> api_play_by_play (stub_world api_down Saved 3000) 745444 = Inl ApiError
   \<and> api_calls (process_row (stub_world api_down Saved 3000) ''MLB_CACHE'' False (1 / 10)
        (start_state empty_disk) sample_row) = [745444]
   \<and> cached_count (process_row (stub_world api_down Saved 3000) ''MLB_CACHE'' False (1 / 10)
        (start_state empty_disk) sample_row) = 0
   \<and> skipped_count (process_row (stub_world api_down Saved 3000) ''MLB_CACHE'' False (1 / 10)
        (start_state empty_disk) sample_row) = 0
   \<and> warnings (process_row (stub_world api_down Saved 3000) ''MLB_CACHE'' False (1 / 10)
        (start_state empty_disk) sample_row) = [ApiError]
   \<and> warnings (process_games (stub_world api_down Saved 3000) ''MLB_CACHE'' False (1 / 10)
        empty_disk ([malformed_row] @ sample_row # [second_row]))
      = [ValueError ''invalid literal for int()'', ApiError, ApiError]"
proof -
  have g: "game_pk malformed_row = Inl (ValueError ''invalid literal for int()'')"
    by (simp add: malformed_row_def)
  have n: "game_pk sample_row = Inr 745444"
    "api_play_by_play (stub_world api_down Saved 3000) 745444 = Inl ApiError"
    "api_calls (process_row (stub_world api_down Saved 3000) ''MLB_CACHE'' False (1 / 10)
        (start_state empty_disk) sample_row) = api_calls (start_state empty_disk) @ [745444]"
    by (simp_all add: fetch_defs fetch_example_defs)
  have w: "warnings (process_games (stub_world api_down Saved 3000) ''MLB_CACHE'' False (1 / 10)
        empty_disk ([malformed_row] @ sample_row # [second_row]))
      = [ValueError ''invalid literal for int()'', ApiError, ApiError]"
    by (simp add: fetch_defs fetch_example_defs malformed_row_def second_row_def)
  from failed_game_logged_and_skipped [of malformed_row "ValueError ''invalid literal for int()''"
      "stub_world api_up Saved 3000" "''MLB_CACHE''" False "1 / 10" "start_state empty_disk"]
    failed_game_logged_and_skipped [of sample_row ApiError
      "stub_world api_down Saved 3000" "''MLB_CACHE''" False "1 / 10" "start_state empty_disk"]
    g n w
  show ?thesis by (simp add: start_state_def)
qed

section \<open>Proofs: write failures and schedule validation\<close>

lemma fetch_and_save_writes:
  "cache_writes (fetch_and_save w d i f s)
     = (case fetch_game_pbp w i of Inl e \<Rightarrow> cache_writes s | Inr doc \<Rightarrow> cache_writes s @ [f])"
  by (auto simp: fetch_and_save_def log_warning_def Let_def
      split: sum.splits prod.splits option.splits)

lemma process_row_cache_write:
  assumes "cache_writes (process_row w cache_dir force d st row) = cache_writes st @ [game_file]"
  shows "\<exists>game_id game_year st1 game_data.
      get_season_dir w cache_dir game_year st = Inr st1
      \<and> fetch_game_pbp w game_id = Inr game_data
      \<and> process_row w cache_dir force d st row = fetch_and_save w d game_id game_file st1"
proof (cases "game_pk row")
  case (Inl e)
  with assms show ?thesis by (simp add: process_row_def log_warning_def)
next
  case id: (Inr game_id)
  show ?thesis
  proof (cases "date_year row")
    case (Inl e)
    with assms id show ?thesis by (simp add: process_row_def log_warning_def)
  next
    case yr: (Inr game_year)
    show ?thesis
    proof (cases "get_season_dir w cache_dir game_year st")
      case (Inl e)
      with assms id yr show ?thesis by (simp add: process_row_def log_warning_def)
    next
      case sd: (Inr st1)
      let ?file = "game_file_path (cache_dir @ ''/'' @ game_year) game_id (home_team row) (away_team row)"
      note c = get_season_dir_counts [OF sd]
      show ?thesis
      proof (cases "should_skip force (files st1) ?file")
        case (Inl e)
        with assms id yr sd c show ?thesis by (simp add: process_row_def log_warning_def)
      next
        case sk: (Inr skip)
        show ?thesis
        proof (cases skip)
          case True
          with assms id yr sd c sk show ?thesis by (simp add: process_row_def)
        next
          case False
          with id yr sd sk have run: "process_row w cache_dir force d st row
              = fetch_and_save w d game_id ?file st1"
            by (simp add: process_row_def)
          show ?thesis
          proof (cases "fetch_game_pbp w game_id")
            case (Inl e)
            with assms c show ?thesis unfolding run by (simp add: fetch_and_save_writes)
          next
            case (Inr doc)
            with assms c have "?file = game_file"
              unfolding run by (simp add: fetch_and_save_writes)
            with sd Inr run show ?thesis by blast
          qed
        qed
      qed
    qed
  qed
qed

text \<open>
  Claim C5, as amended. A cache write failure is raised by the write itself
  (\<^verbatim>\<open>_save_game_pbp\<close> re-raises it), but the handler around each game in
  \<^verbatim>\<open>_process_games\<close> catches it: the game is logged with a warning and counted neither
  as cached nor as skipped, and the run goes on. The only errors that end a fetch run
  are those of loading and validating the schedule and of making the cache
  directories.
\<close>

theorem write_failure_is_per_game_warning:
  assumes "cache_writes (process_row w cache_dir force d st row) = cache_writes st @ [game_file]"
    and "save_outcome w game_file \<noteq> Saved"
  shows "fst (save_game_pbp w game_data game_file fs) = Some OSError
       \<and> cached_count (process_row w cache_dir force d st row) = cached_count st
       \<and> skipped_count (process_row w cache_dir force d st row) = skipped_count st
       \<and> warnings (process_row w cache_dir force d st row) = warnings st @ [OSError]
       \<and> (\<forall>e. get_mlb_pbp_data w schedule_path year cache_dir force d fs = Inl e \<longrightarrow>
             load_and_validate_schedule schedule_path = Inl e
             \<or> mkdir_fails w (cache_dir @ ''/'' @ string_of_int year)
             \<or> mkdir_fails w cache_dir)"
proof -
  have raised: "fst (save_game_pbp w doc game_file fs') = Some OSError" for doc fs'
    using assms(2) by (cases "save_outcome w game_file") (simp_all add: save_game_pbp_def)
  from process_row_cache_write [OF assms(1)] obtain game_id game_year st1 doc where
    y: "get_season_dir w cache_dir game_year st = Inr st1"
    and f: "fetch_game_pbp w game_id = Inr doc"
    and run: "process_row w cache_dir force d st row = fetch_and_save w d game_id game_file st1"
    by blast
  obtain fs' where "save_game_pbp w doc game_file (files st1) = (Some OSError, fs')"
    using raised [of doc "files st1"] by (cases "save_game_pbp w doc game_file (files st1)") auto
  with f get_season_dir_counts [OF y]
  have "cached_count (process_row w cache_dir force d st row) = cached_count st
       \<and> skipped_count (process_row w cache_dir force d st row) = skipped_count st
       \<and> warnings (process_row w cache_dir force d st row) = warnings st @ [OSError]"
    unfolding run by (simp add: fetch_and_save_def log_warning_def Let_def)
  moreover have "\<forall>e. get_mlb_pbp_data w schedule_path year cache_dir force d fs = Inl e \<longrightarrow>
             load_and_validate_schedule schedule_path = Inl e
             \<or> mkdir_fails w (cache_dir @ ''/'' @ string_of_int year)
             \<or> mkdir_fails w cache_dir"
    by (auto simp: get_mlb_pbp_data_def split: sum.splits if_splits)
  ultimately show ?thesis using raised by blast
qed

theorem write_failure_is_per_game_warning_witness:
  "cache_writes (process_row (stub_world api_up (DumpFailed 10) 3000) ''MLB_CACHE'' False (1 / 10)
       (start_state empty_disk) sample_row) = [''MLB_CACHE/2024/GAMEPK_745444_NYY_VS_BOS.json'']
   \<and> save_outcome (stub_world api_up (DumpFailed 10) 3000)
        ''MLB_CACHE/2024/GAMEPK_745444_NYY_VS_BOS.json'' = DumpFailed 10
   \<and> cached_count (process_row (stub_world api_up (DumpFailed 10) 3000) ''MLB_CACHE'' False (1 / 10)
       (start_state empty_disk) sample_row) = 0
   \<and> skipped_count (process_row (stub_world api_up (DumpFailed 10) 3000) ''MLB_CACHE'' False (1 / 10)
       (start_state empty_disk) sample_row) = 0
   \<and> warnings (process_row (stub_world api_up (DumpFailed 10) 3000) ''MLB_CACHE'' False (1 / 10)
       (start_state empty_disk) sample_row) = [OSError]"
proof -
  have a: "cache_writes (process_row (stub_world api_up (DumpFailed 10) 3000) ''MLB_CACHE'' False
       (1 / 10) (start_state empty_disk) sample_row)
      = cache_writes (start_state empty_disk) @ [''MLB_CACHE/2024/GAMEPK_745444_NYY_VS_BOS.json'']"
    by (simp add: fetch_defs fetch_example_defs)
  have b: "save_outcome (stub_world api_up (DumpFailed 10) 3000)
        ''MLB_CACHE/2024/GAMEPK_745444_NYY_VS_BOS.json'' \<noteq> Saved"
    by (simp add: stub_world_def)
  from write_failure_is_per_game_warning [OF a b] a show ?thesis
    by (simp add: start_state_def stub_world_def)
qed

text \<open>
  Claim C5 as stated fails: with a cache file that cannot be opened for writing, the
  fetch run over a one-game schedule returns normally, with both counters at zero and
  the error logged as a warning.
\<close>

theorem write_failure_not_fatal:
  "(case get_mlb_pbp_data (stub_world api_up OpenFailed 3000) (Csv sample_columns [sample_row])
      2024 ''MLB_CACHE'' False (1 / 10) empty_disk of
      Inl e \<Rightarrow> False
    | Inr st \<Rightarrow> cached_count st = 0 \<and> skipped_count st = 0 \<and> warnings st = [OSError]
         \<and> cache_writes st = [''MLB_CACHE/2024/GAMEPK_745444_NYY_VS_BOS.json''])"
  by (simp add: fetch_defs fetch_example_defs)

text \<open>
  Claim C7, at an input where the code departs from it. The schedule file lacks the
  columns \<^verbatim>\<open>game_pk\<close> and \<^verbatim>\<open>date\<close>. The run fails before any game is processed, but
  with the \<^verbatim>\<open>KeyError\<close> that \<^verbatim>\<open>dropna\<close> raises for the one identifier column it looks
  for, not with the error that names the set of missing columns.
\<close>

theorem missing_game_pk_raises_key_error:
  "load_and_validate_schedule (Csv [''home_id'', ''away_id'', ''home_team'', ''away_team''] rows)
     = Inl (KeyError [''game_pk''])
   \<and> get_mlb_pbp_data w (Csv [''home_id'', ''away_id'', ''home_team'', ''away_team''] rows)
        year cache_dir force d fs
     = Inl (KeyError [''game_pk''])
   \<and> REQUIRED_SCHEDULE_COLUMNS - set [''home_id'', ''away_id'', ''home_team'', ''away_team'']
     = {''game_pk'', ''date''}"
  by (auto simp: get_mlb_pbp_data_def load_and_validate_schedule_def dropna_subset_def
      REQUIRED_SCHEDULE_COLUMNS_def)

lemma missing_columns_named:
  assumes "{''game_pk'', ''home_id'', ''away_id''} \<subseteq> set columns"
    and "\<not> REQUIRED_SCHEDULE_COLUMNS \<subseteq> set columns"
  shows "load_and_validate_schedule (Csv columns rows)
      = Inl (MissingColumnsError (REQUIRED_SCHEDULE_COLUMNS - set columns))"
  using assms
  by (auto simp: load_and_validate_schedule_def dropna_subset_def Let_def)

end
